theory Spec2Isabelle
  imports Main "HOL-Library.AList"
begin

section \<open>Text\<close>

text \<open>
  The deployment tool \<^verbatim>\<open>deploy_magma.py\<close> is a console wizard: it asks questions, stores
  the answers in one dictionary, renders shell scripts from it and runs them. This theory
  embeds the program function by function and settles the statements of its specification.

  A character is an 8-bit \<^typ>\<open>char\<close>, read as the Unicode code point of the same number
  (U+0000 to U+00FF), so that Python's \<^verbatim>\<open>lower\<close>, \<^verbatim>\<open>strip\<close> and \<^verbatim>\<open>split\<close> are the library's
  own on every string of the type. A character beyond U+00FF only occurs in the program's
  decorative marks and is carried as its UTF-8 bytes.
\<close>

definition is_space :: "char \<Rightarrow> bool" where
  "is_space c = (of_char c \<in> set [9, 10, 11, 12, 13, 28, 29, 30, 31, 32, 133, 160 :: nat])"

definition lower_char :: "char \<Rightarrow> char" where
  "lower_char c =
     (let n = of_char c :: nat
      in if (65 \<le> n \<and> n \<le> 90) \<or> (192 \<le> n \<and> n \<le> 222 \<and> n \<noteq> 215)
         then char_of (n + 32) else c)"

definition lower :: "string \<Rightarrow> string" where
  "lower s = map lower_char s"

definition upper_char :: "char \<Rightarrow> string" where
  "upper_char c =
     (let n = of_char c :: nat
      in if (97 \<le> n \<and> n \<le> 122) \<or> (224 \<le> n \<and> n \<le> 254 \<and> n \<noteq> 247)
         then [char_of (n - 32)]
         else if n = 223 then ''SS''
         else if n = 181 then [CHR 0xCE, CHR 0x9C]
         else if n = 255 then [CHR 0xC5, CHR 0xB8]
         else [c])"

definition upper :: "string \<Rightarrow> string" where
  "upper s = concat (map upper_char s)"

definition strip :: "string \<Rightarrow> string" where
  "strip s = rev (dropWhile is_space (rev (dropWhile is_space s)))"

text \<open>\<^verbatim>\<open>s.split(sep)\<close> for a separator of one character.\<close>

fun split :: "string \<Rightarrow> char \<Rightarrow> string list" where
  "split [] sep = [[]]"
| "split (c # cs) sep =
     (if c = sep then [] # split cs sep
      else (case split cs sep of [] \<Rightarrow> [[c]] | p # ps \<Rightarrow> (c # p) # ps))"

fun startswith :: "string \<Rightarrow> string \<Rightarrow> bool" where
  "startswith s [] = True"
| "startswith [] (p # ps) = False"
| "startswith (c # cs) (p # ps) = (c = p \<and> startswith cs ps)"

text \<open>\<^verbatim>\<open>needle in hay\<close> on two strings: the substring test.\<close>

fun str_in :: "string \<Rightarrow> string \<Rightarrow> bool" where
  "str_in needle [] = (needle = [])"
| "str_in needle (c # cs) = (startswith (c # cs) needle \<or> str_in needle cs)"

fun join :: "string \<Rightarrow> string list \<Rightarrow> string" where
  "join sep [] = []"
| "join sep [x] = x"
| "join sep (x # y # ys) = x @ sep @ join sep (y # ys)"

definition digit :: "nat \<Rightarrow> char" where
  "digit d = char_of (48 + d)"

function decimal :: "nat \<Rightarrow> string" where
  "decimal n = (if n < 10 then [digit n] else decimal (n div 10) @ [digit (n mod 10)])"
  by pat_completeness auto
termination
  by (relation "measure id") auto

declare decimal.simps [simp del]

definition str_int :: "int \<Rightarrow> string" where
  "str_int i = (if i < 0 then ''-'' @ decimal (nat (- i)) else decimal (nat i))"

definition newline :: string where
  "newline = [CHR 0x0A]"

definition backslash :: string where
  "backslash = [CHR 0x5C]"

definition quote :: string where
  "quote = [CHR 0x27]"

definition lines :: "string list \<Rightarrow> string" where
  "lines ls = concat (map (\<lambda>l. l @ newline) ls)"

subsection \<open>The marks of the messages\<close>

text \<open>
  Each message mark below is the sequence of bytes the source file holds at that place.
\<close>

definition mark_target :: string where
  "mark_target = [CHR 0xC3, CHR 0xB0, CHR 0xC5, CHR 0xB8, CHR 0xC5, CHR 0xBD, CHR 0xC2, CHR 0xAF]"

definition mark_antenna :: string where
  "mark_antenna = [CHR 0xC3, CHR 0xB0, CHR 0xC5, CHR 0xB8, CHR 0xE2, CHR 0x80, CHR 0x9C, CHR 0xC2, CHR 0xA1]"

definition mark_globe :: string where
  "mark_globe = [CHR 0xC3, CHR 0xB0, CHR 0xC5, CHR 0xB8, CHR 0xC5, CHR 0x92]"

definition mark_link :: string where
  "mark_link = [CHR 0xC3, CHR 0xB0, CHR 0xC5, CHR 0xB8, CHR 0xE2, CHR 0x80, CHR 0x9D, CHR 0xE2, CHR 0x80, CHR 0x94]"

definition mark_laptop :: string where
  "mark_laptop = [CHR 0xC3, CHR 0xB0, CHR 0xC5, CHR 0xB8, CHR 0xE2, CHR 0x80, CHR 0x99, CHR 0xC2, CHR 0xBB]"

definition mark_search :: string where
  "mark_search = [CHR 0xC3, CHR 0xB0, CHR 0xC5, CHR 0xB8, CHR 0xE2, CHR 0x80, CHR 0x9D]"

definition mark_ok :: string where
  "mark_ok = [CHR 0xC3, CHR 0xA2, CHR 0xC5, CHR 0x93, CHR 0xE2, CHR 0x80, CHR 0xA6]"

definition mark_fail :: string where
  "mark_fail = [CHR 0xC3, CHR 0xA2, CHR 0xC5, CHR 0x92]"

definition mark_warning :: string where
  "mark_warning = [CHR 0xC3, CHR 0xA2, CHR 0xC5, CHR 0xA1, CHR 0xC2, CHR 0xA0, CHR 0xC3, CHR 0xAF, CHR 0xC2, CHR 0xB8]"

definition mark_package :: string where
  "mark_package = [CHR 0xC3, CHR 0xB0, CHR 0xC5, CHR 0xB8, CHR 0xE2, CHR 0x80, CHR 0x9C, CHR 0xC2, CHR 0xA6]"

definition mark_clipboard :: string where
  "mark_clipboard = [CHR 0xC3, CHR 0xB0, CHR 0xC5, CHR 0xB8, CHR 0xE2, CHR 0x80, CHR 0x9C, CHR 0xE2, CHR 0x80, CHR 0xB9]"

definition mark_crane :: string where
  "mark_crane = [CHR 0xC3, CHR 0xB0, CHR 0xC5, CHR 0xB8, CHR 0xE2, CHR 0x80, CHR 0x94, CHR 0xC3, CHR 0xAF, CHR 0xC2, CHR 0xB8]"

definition mark_rocket :: string where
  "mark_rocket = [CHR 0xC3, CHR 0xB0, CHR 0xC5, CHR 0xB8, CHR 0xC5, CHR 0xA1, CHR 0xE2, CHR 0x82, CHR 0xAC]"

definition mark_party :: string where
  "mark_party = [CHR 0xC3, CHR 0xB0, CHR 0xC5, CHR 0xB8, CHR 0xC5, CHR 0xBD, CHR 0xE2, CHR 0x80, CHR 0xB0]"

definition mark_folder :: string where
  "mark_folder = [CHR 0xC3, CHR 0xB0, CHR 0xC5, CHR 0xB8, CHR 0xE2, CHR 0x80, CHR 0x9C]"

section \<open>Values, exceptions and the world\<close>

text \<open>
  The configuration is an ordinary Python dictionary, filled by the questionnaire or read
  from a YAML file, so any YAML value can stand in it: a value is \<^verbatim>\<open>None\<close>, a boolean, an
  integer, a string, a list or a dictionary with string keys, in insertion order. (Floats and
  dates are left out.)
\<close>

datatype pyval =
    VNone
  | VBool bool
  | VInt int
  | VStr string
  | VList "pyval list"
  | VDict "(string \<times> pyval) list"

datatype exn =
    KeyError string
  | TypeError string
  | AttributeError string
  | EOFError
  | KeyboardInterrupt
  | SystemExit int
  | CalledProcessError string nat string
  | OSError string
  | FileNotFoundError string
  | YAMLError string

text \<open>\<^verbatim>\<open>except Exception\<close> catches every exception but an interrupt and an exit.\<close>

fun is_Exception :: "exn \<Rightarrow> bool" where
  "is_Exception KeyboardInterrupt = False"
| "is_Exception (SystemExit n) = False"
| "is_Exception e = True"

definition hex_digit :: "nat \<Rightarrow> char" where
  "hex_digit d = (if d < 10 then char_of (48 + d) else char_of (87 + d))"

definition printable :: "char \<Rightarrow> bool" where
  "printable c =
     (let n = of_char c :: nat
      in 32 \<le> n \<and> n \<noteq> 127 \<and> \<not> (128 \<le> n \<and> n \<le> 160) \<and> n \<noteq> 173)"

definition repr_char :: "char \<Rightarrow> char \<Rightarrow> string" where
  "repr_char q c =
     (if c = q \<or> c = CHR 0x5C then [CHR 0x5C, c]
      else if c = CHR 0x09 then [CHR 0x5C, CHR ''t'']
      else if c = CHR 0x0A then [CHR 0x5C, CHR ''n'']
      else if c = CHR 0x0D then [CHR 0x5C, CHR ''r'']
      else if printable c then [c]
      else [CHR 0x5C, CHR ''x'', hex_digit (of_char c div 16), hex_digit (of_char c mod 16)])"

text \<open>\<^verbatim>\<open>repr\<close> of a string: double quotes only when it holds a single quote and no double one.\<close>

definition repr_str :: "string \<Rightarrow> string" where
  "repr_str s =
     (let q = (if CHR 0x27 \<in> set s \<and> CHR 0x22 \<notin> set s then CHR 0x22 else CHR 0x27)
      in [q] @ concat (map (repr_char q) s) @ [q])"

fun py_repr :: "pyval \<Rightarrow> string" where
  "py_repr VNone = ''None''"
| "py_repr (VBool b) = (if b then ''True'' else ''False'')"
| "py_repr (VInt i) = str_int i"
| "py_repr (VStr s) = repr_str s"
| "py_repr (VList xs) = ''['' @ join '', '' (map py_repr xs) @ '']''"
| "py_repr (VDict kvs) =
     ''{'' @ join '', '' (map (\<lambda>p. repr_str (fst p) @ '': '' @ py_repr (snd p)) kvs) @ ''}''"

text \<open>\<^verbatim>\<open>str(v)\<close>, which an f-string applies to each substituted value.\<close>

definition py_str :: "pyval \<Rightarrow> string" where
  "py_str v = (case v of VStr s \<Rightarrow> s | _ \<Rightarrow> py_repr v)"

fun type_name :: "pyval \<Rightarrow> string" where
  "type_name VNone = ''NoneType''"
| "type_name (VBool b) = ''bool''"
| "type_name (VInt i) = ''int''"
| "type_name (VStr s) = ''str''"
| "type_name (VList xs) = ''list''"
| "type_name (VDict kvs) = ''dict''"

fun exn_text :: "exn \<Rightarrow> string" where
  "exn_text (KeyError k) = repr_str k"
| "exn_text (TypeError m) = m"
| "exn_text (AttributeError m) = m"
| "exn_text EOFError = ''EOF when reading a line''"
| "exn_text KeyboardInterrupt = []"
| "exn_text (SystemExit n) = str_int n"
| "exn_text (CalledProcessError cmd rc err) =
     ''Command '' @ quote @ cmd @ quote @ '' returned non-zero exit status '' @ decimal rc @ ''.''"
| "exn_text (OSError m) = m"
| "exn_text (FileNotFoundError path) = ''[Errno 2] No such file or directory: '' @ repr_str path"
| "exn_text (YAMLError m) = m"

subsection \<open>Operations on values\<close>

text \<open>\<^verbatim>\<open>v[k]\<close> for a string key.\<close>

fun getitem :: "pyval \<Rightarrow> string \<Rightarrow> exn + pyval" where
  "getitem (VDict kvs) k = (case map_of kvs k of None \<Rightarrow> Inl (KeyError k) | Some x \<Rightarrow> Inr x)"
| "getitem (VStr s) k = Inl (TypeError (''string indices must be integers, not '' @ quote @ ''str'' @ quote))"
| "getitem (VList xs) k = Inl (TypeError ''list indices must be integers or slices, not str'')"
| "getitem v k = Inl (TypeError (quote @ type_name v @ quote @ '' object is not subscriptable''))"

text \<open>\<^verbatim>\<open>v[k] = x\<close>: an existing key keeps its place, a new one goes last.\<close>

fun setitem :: "pyval \<Rightarrow> string \<Rightarrow> pyval \<Rightarrow> exn + pyval" where
  "setitem (VDict kvs) k x = Inr (VDict (AList.update k x kvs))"
| "setitem (VList xs) k x = Inl (TypeError ''list indices must be integers or slices, not str'')"
| "setitem v k x = Inl (TypeError (quote @ type_name v @ quote @ '' object does not support item assignment''))"

text \<open>\<^verbatim>\<open>k in v\<close> for a string \<open>k\<close>.\<close>

fun contains :: "pyval \<Rightarrow> string \<Rightarrow> exn + bool" where
  "contains (VList xs) k = Inr (VStr k \<in> set xs)"
| "contains (VDict kvs) k = Inr (k \<in> set (map fst kvs))"
| "contains (VStr s) k = Inr (str_in k s)"
| "contains v k = Inl (TypeError (''argument of type '' @ quote @ type_name v @ quote @ '' is not iterable''))"

text \<open>The elements a \<^verbatim>\<open>for\<close> loop visits.\<close>

fun iterate :: "pyval \<Rightarrow> exn + pyval list" where
  "iterate (VList xs) = Inr xs"
| "iterate (VDict kvs) = Inr (map (\<lambda>p. VStr (fst p)) kvs)"
| "iterate (VStr s) = Inr (map (\<lambda>c. VStr [c]) s)"
| "iterate v = Inl (TypeError (quote @ type_name v @ quote @ '' object is not iterable''))"

text \<open>\<^verbatim>\<open>v.get(k, d)\<close> and \<^verbatim>\<open>v.upper()\<close>.\<close>

fun get_default :: "pyval \<Rightarrow> string \<Rightarrow> string \<Rightarrow> exn + pyval" where
  "get_default (VDict kvs) k d = Inr (case map_of kvs k of None \<Rightarrow> VStr d | Some x \<Rightarrow> x)"
| "get_default v k d = Inl (AttributeError (quote @ type_name v @ quote @ '' object has no attribute '' @ quote @ ''get'' @ quote))"

fun upper_of :: "pyval \<Rightarrow> exn + string" where
  "upper_of (VStr s) = Inr (upper s)"
| "upper_of v = Inl (AttributeError (quote @ type_name v @ quote @ '' object has no attribute '' @ quote @ ''upper'' @ quote))"

subsection \<open>The world and the environment\<close>

text \<open>
  What the operator does at the terminal is a sequence of events: a line typed, or an
  interrupt (Ctrl-C) at a prompt. When the sequence is used up the next read meets the end
  of input, and Python raises \<^verbatim>\<open>EOFError\<close>.
\<close>

datatype event = Line string | Interrupt

text \<open>
  The state a run works on: the deployment object's \<^verbatim>\<open>config\<close>, the terminal, the log,
  the files and directories written, and the commands run so far.
\<close>

record world =
  config :: pyval
  stdin :: "event list"
  printed :: "string list"
  logged :: "(string \<times> string) list"
  files :: "string \<rightharpoonup> string"
  dirs :: "string set"
  history :: "string list"

text \<open>The command line as parsed: \<^verbatim>\<open>--config\<close>, \<^verbatim>\<open>--skip-prerequisites\<close> and \<^verbatim>\<open>--dry-run\<close>.\<close>

record args =
  config_arg :: "string option"
  skip_prerequisites :: bool
  dry_run :: bool

text \<open>
  What the program does not decide itself is a parameter: what a shell command answers
  (given the commands run before it), whether \<^verbatim>\<open>ipaddress.ip_address\<close> accepts a string,
  what \<^verbatim>\<open>argparse\<close> makes of the command line, what \<^verbatim>\<open>yaml.safe_load\<close> and \<^verbatim>\<open>yaml.dump\<close>
  make of a text and a value, and the text of the directory the script lives in (empty, or
  ending in a slash).

  The parser accepts the command line, or rejects it (it then writes its complaint to the
  standard error stream, which the world does not hold, and exits with code 2), or was asked
  for help (it then prints the help text and exits with code 0). Loading a document gives a
  value, or fails with a problem, or is interrupted from the keyboard.
\<close>

datatype outcome = Exited nat string string | Interrupted | Broken string

datatype parsed = Parsed args | Rejected | Help string

datatype loading = Document pyval | Malformed string | Stopped

record env =
  shell :: "string list \<Rightarrow> string \<Rightarrow> outcome"
  ip_address :: "string \<Rightarrow> bool"
  argparse :: "string list \<Rightarrow> parsed"
  safe_load :: "string \<Rightarrow> loading"
  dump :: "pyval \<Rightarrow> string"
  deployment_dir :: string

type_synonym 'a prog = "world \<Rightarrow> (exn + 'a) \<times> world"

definition ret :: "'a \<Rightarrow> 'a prog" where
  "ret x w = (Inr x, w)"

definition raise :: "exn \<Rightarrow> 'a prog" where
  "raise e w = (Inl e, w)"

definition andthen :: "'a prog \<Rightarrow> ('a \<Rightarrow> 'b prog) \<Rightarrow> 'b prog" where
  "andthen m f w = (case m w of (Inl e, w1) \<Rightarrow> (Inl e, w1) | (Inr x, w1) \<Rightarrow> f x w1)"

text \<open>A block of statements, run in order until one raises.\<close>

fun steps :: "unit prog list \<Rightarrow> unit prog" where
  "steps [] = ret ()"
| "steps (m # ms) = andthen m (\<lambda>_. steps ms)"

text \<open>Lifting a value operation that may raise.\<close>

definition lift :: "exn + 'a \<Rightarrow> 'a prog" where
  "lift r w = (r, w)"

definition print :: "string \<Rightarrow> unit prog" where
  "print s w = (Inr (), w\<lparr>printed := printed w @ [s @ newline]\<rparr>)"

definition input :: "string \<Rightarrow> string prog" where
  "input prompt w =
     (let w1 = w\<lparr>printed := printed w @ [prompt]\<rparr>
      in case stdin w of
           [] \<Rightarrow> (Inl EOFError, w1)
         | Line s # rest \<Rightarrow> (Inr s, w1\<lparr>stdin := rest\<rparr>)
         | Interrupt # rest \<Rightarrow> (Inl KeyboardInterrupt, w1\<lparr>stdin := rest\<rparr>))"

text \<open>\<^verbatim>\<open>getpass\<close> reads a line without echo; its prompt goes to the terminal device.\<close>

definition getpass :: "string \<Rightarrow> string prog" where
  "getpass prompt w =
     (case stdin w of
        [] \<Rightarrow> (Inl EOFError, w)
      | Line s # rest \<Rightarrow> (Inr s, w\<lparr>stdin := rest\<rparr>)
      | Interrupt # rest \<Rightarrow> (Inl KeyboardInterrupt, w\<lparr>stdin := rest\<rparr>))"

definition logger_info :: "string \<Rightarrow> unit prog" where
  "logger_info msg w = (Inr (), w\<lparr>logged := logged w @ [(''INFO'', msg)]\<rparr>)"

definition logger_error :: "string \<Rightarrow> unit prog" where
  "logger_error msg w = (Inr (), w\<lparr>logged := logged w @ [(''ERROR'', msg)]\<rparr>)"

definition sys_exit :: "int \<Rightarrow> 'a prog" where
  "sys_exit n = raise (SystemExit n)"

section \<open>The input and validation layer\<close>

function confirm_action :: "string \<Rightarrow> bool prog" where
  "confirm_action message w =
     (case input (message @ '' [y/N]: '') w of
        (Inl e, w1) \<Rightarrow> (Inl e, w1)
      | (Inr line, w1) \<Rightarrow>
          (let response = strip (lower line)
           in if response \<in> set [''y'', ''yes''] then (Inr True, w1)
              else if response \<in> set [''n'', ''no'', ''''] then (Inr False, w1)
              else (case print (''Please enter '' @ quote @ ''y'' @ quote @ '' for yes or ''
                                 @ quote @ ''n'' @ quote @ '' for no.'') w1 of
                      (_, w2) \<Rightarrow> confirm_action message w2)))"
  by pat_completeness auto
termination
  by (relation "measure (\<lambda>(message, w). length (stdin w))")
     (auto simp: input_def print_def Let_def split: list.splits event.splits)

declare confirm_action.simps [simp del]

definition truthy :: "string option \<Rightarrow> bool" where
  "truthy d = (case d of None \<Rightarrow> False | Some s \<Rightarrow> s \<noteq> [])"

definition text_of :: "string option \<Rightarrow> string" where
  "text_of d = (case d of None \<Rightarrow> [] | Some s \<Rightarrow> s)"

definition full_prompt :: "string \<Rightarrow> string option \<Rightarrow> string" where
  "full_prompt prompt dflt =
     (if truthy dflt then prompt @ '' ['' @ text_of dflt @ '']: '' else prompt @ '': '')"

function get_user_input :: "string \<Rightarrow> string option \<Rightarrow> bool \<Rightarrow> string prog" where
  "get_user_input prompt dflt required w =
     (case input (full_prompt prompt dflt) w of
        (Inl e, w1) \<Rightarrow> (Inl e, w1)
      | (Inr line, w1) \<Rightarrow>
          (let response = strip line
           in if response \<noteq> [] then (Inr response, w1)
              else if truthy dflt then (Inr (text_of dflt), w1)
              else if \<not> required then (Inr [], w1)
              else (case print ''This field is required. Please enter a value.'' w1 of
                      (_, w2) \<Rightarrow> get_user_input prompt dflt required w2)))"
  by pat_completeness auto
termination
  by (relation "measure (\<lambda>(prompt, dflt, required, w). length (stdin w))")
     (auto simp: input_def print_def Let_def split: list.splits event.splits)

declare get_user_input.simps [simp del]

definition get_password :: "string \<Rightarrow> string prog" where
  "get_password prompt = getpass (prompt @ '': '')"

definition validate_ip_address :: "env \<Rightarrow> string \<Rightarrow> bool" where
  "validate_ip_address e ip = ip_address e ip"

definition validate_email :: "string \<Rightarrow> bool" where
  "validate_email email =
     (if str_in ''@'' email then str_in ''.'' (split email (CHR ''@'') ! 1) else False)"

subsection \<open>Reading and writing the configuration\<close>

text \<open>\<^verbatim>\<open>self.config[k1][k2]...\<close> as a read, as an assignment and as an \<^verbatim>\<open>append\<close>.\<close>

fun get_path :: "pyval \<Rightarrow> string list \<Rightarrow> exn + pyval" where
  "get_path v [] = Inr v"
| "get_path v (k # ks) = (case getitem v k of Inl e \<Rightarrow> Inl e | Inr sub \<Rightarrow> get_path sub ks)"

fun set_path :: "pyval \<Rightarrow> string list \<Rightarrow> pyval \<Rightarrow> exn + pyval" where
  "set_path v [] x = Inr x"
| "set_path v [k] x = setitem v k x"
| "set_path v (k # ks) x =
     (case getitem v k of
        Inl e \<Rightarrow> Inl e
      | Inr sub \<Rightarrow> (case set_path sub ks x of Inl e \<Rightarrow> Inl e | Inr sub' \<Rightarrow> setitem v k sub'))"

definition config_get :: "string list \<Rightarrow> pyval prog" where
  "config_get path w = (get_path (config w) path, w)"

definition config_set :: "string list \<Rightarrow> pyval \<Rightarrow> unit prog" where
  "config_set path x w =
     (case set_path (config w) path x of
        Inl e \<Rightarrow> (Inl e, w)
      | Inr c \<Rightarrow> (Inr (), w\<lparr>config := c\<rparr>))"

definition config_append :: "string list \<Rightarrow> pyval \<Rightarrow> unit prog" where
  "config_append path x =
     andthen (config_get path) (\<lambda>v.
       case v of
         VList xs \<Rightarrow> config_set path (VList (xs @ [x]))
       | _ \<Rightarrow> raise (AttributeError (quote @ type_name v @ quote @ '' object has no attribute ''
                                        @ quote @ ''append'' @ quote)))"

definition config_contains :: "string \<Rightarrow> string list \<Rightarrow> bool prog" where
  "config_contains k path = andthen (config_get path) (\<lambda>v. lift (contains v k))"

text \<open>
  A value read back right after the program stored a string there. No other value can
  stand at that place; the remaining case is there for totality only.
\<close>

fun the_str :: "pyval \<Rightarrow> exn + string" where
  "the_str (VStr s) = Inr s"
| "the_str v = Inl (TypeError (''expected str, got '' @ type_name v))"

definition config_str :: "string list \<Rightarrow> string prog" where
  "config_str path = andthen (config_get path) (\<lambda>v. lift (the_str v))"

text \<open>\<^verbatim>\<open>self.config[...] = self.get_user_input(...)\<close>: the question first, then the store.\<close>

definition ask :: "string list \<Rightarrow> string \<Rightarrow> string option \<Rightarrow> bool \<Rightarrow> unit prog" where
  "ask path prompt dflt required =
     andthen (get_user_input prompt dflt required) (\<lambda>v. config_set path (VStr v))"

lemma get_user_input_consumes:
  "get_user_input prompt dflt required w = (Inr x, w') \<Longrightarrow> length (stdin w') < length (stdin w)"
proof (induction prompt dflt required w rule: get_user_input.induct)
  case (1 prompt dflt required w)
  show ?case
  proof (cases "stdin w")
    case Nil
    with "1.prems" show ?thesis
      by (subst (asm) get_user_input.simps) (simp add: input_def)
  next
    case (Cons ev rest)
    show ?thesis
    proof (cases ev)
      case Interrupt
      with Cons "1.prems" show ?thesis
        by (subst (asm) get_user_input.simps) (simp add: input_def)
    next
      case (Line s)
      let ?w1 = "w\<lparr>printed := printed w @ [full_prompt prompt dflt], stdin := rest\<rparr>"
      have inp: "input (full_prompt prompt dflt) w = (Inr s, ?w1)"
        using Cons Line by (simp add: input_def)
      show ?thesis
      proof (cases "strip s \<noteq> [] \<or> truthy dflt \<or> \<not> required")
        case True
        with "1.prems" inp Cons show ?thesis
          by (subst (asm) get_user_input.simps) (auto simp: Let_def split: if_splits)
      next
        case False
        obtain u w2 where pr: "print ''This field is required. Please enter a value.'' ?w1 = (u, w2)"
          by (cases "print ''This field is required. Please enter a value.'' ?w1")
        then have w2: "stdin w2 = rest"
          by (auto simp: print_def)
        from "1.prems" inp False pr
        have "get_user_input prompt dflt required w2 = (Inr x, w')"
          by (subst (asm) get_user_input.simps) (simp add: Let_def)
        with "1.IH" [OF inp [symmetric] refl refl _ _ _ pr [symmetric]] False
        have "length (stdin w') < length (stdin w2)"
          by auto
        with w2 Cons show ?thesis by simp
      qed
    qed
  qed
qed

text \<open>
  The three \<^verbatim>\<open>while not self.validate_...(self.config[...])\<close> loops: complain, ask again,
  store, test again.
\<close>

function while_invalid :: "(string \<Rightarrow> bool) \<Rightarrow> string list \<Rightarrow> string \<Rightarrow> string \<Rightarrow> unit prog" where
  "while_invalid valid path complaint prompt w =
     (case config_str path w of
        (Inl e, w1) \<Rightarrow> (Inl e, w1)
      | (Inr s, w1) \<Rightarrow>
          if valid s then (Inr (), w1)
          else (case andthen (print complaint) (\<lambda>_. ask path prompt None True) w1 of
                  (Inl e, w2) \<Rightarrow> (Inl e, w2)
                | (Inr _, w2) \<Rightarrow> while_invalid valid path complaint prompt w2))"
  by pat_completeness auto
termination
  apply (relation "measure (\<lambda>(valid, path, complaint, prompt, w). length (stdin w))")
   apply simp
  apply (auto simp: config_str_def config_get_def andthen_def lift_def print_def ask_def
      config_set_def split: sum.splits prod.splits dest!: get_user_input_consumes)
  done

declare while_invalid.simps [simp del]


section \<open>The executor\<close>

record completed_process =
  returncode :: nat
  stdout :: string

definition try_except :: "'a prog \<Rightarrow> (exn \<Rightarrow> bool) \<Rightarrow> (exn \<Rightarrow> 'a prog) \<Rightarrow> 'a prog" where
  "try_except body caught handler w =
     (case body w of
        (Inl e, w1) \<Rightarrow> if caught e then handler e w1 else (Inl e, w1)
      | (Inr x, w1) \<Rightarrow> (Inr x, w1))"

fun is_CalledProcessError :: "exn \<Rightarrow> bool" where
  "is_CalledProcessError (CalledProcessError cmd rc err) = True"
| "is_CalledProcessError e = False"

fun stderr_of :: "exn \<Rightarrow> string" where
  "stderr_of (CalledProcessError cmd rc err) = err"
| "stderr_of e = []"

text \<open>
  \<^verbatim>\<open>subprocess.run(command, shell=True, check=check, capture_output=True, text=True)\<close>:
  the environment answers; with \<^verbatim>\<open>check\<close> a non-zero exit status raises.
\<close>

definition subprocess_run :: "env \<Rightarrow> string \<Rightarrow> bool \<Rightarrow> completed_process prog" where
  "subprocess_run e command check w =
     (let w1 = w\<lparr>history := history w @ [command]\<rparr>
      in case shell e (history w) command of
           Exited rc out err \<Rightarrow>
             if check \<and> rc \<noteq> 0 then (Inl (CalledProcessError command rc err), w1)
             else (Inr \<lparr>returncode = rc, stdout = out\<rparr>, w1)
         | Interrupted \<Rightarrow> (Inl KeyboardInterrupt, w1)
         | Broken msg \<Rightarrow> (Inl (OSError msg), w1))"

definition run_command :: "env \<Rightarrow> string \<Rightarrow> bool \<Rightarrow> completed_process prog" where
  "run_command e command check =
     andthen (logger_info (''Executing command: '' @ command)) (\<lambda>_.
     try_except
       (andthen (subprocess_run e command check) (\<lambda>result.
        andthen (if stdout result \<noteq> [] then logger_info (''Command output: '' @ stdout result)
                 else ret ()) (\<lambda>_.
        ret result)))
       is_CalledProcessError
       (\<lambda>ex. andthen (logger_error (''Command failed: '' @ exn_text ex)) (\<lambda>_.
             andthen (logger_error (''Error output: '' @ stderr_of ex)) (\<lambda>_.
             raise ex))))"

fun run_all :: "env \<Rightarrow> string list \<Rightarrow> unit prog" where
  "run_all e [] = ret ()"
| "run_all e (cmd # cmds) = andthen (run_command e cmd True) (\<lambda>_. run_all e cmds)"

definition write_file :: "string \<Rightarrow> string \<Rightarrow> unit prog" where
  "write_file path content w = (Inr (), w\<lparr>files := (files w)(path \<mapsto> content)\<rparr>)"

section \<open>The deployment object\<close>

definition config_dir :: "env \<Rightarrow> string" where
  "config_dir e = deployment_dir e @ ''config''"

definition scripts_dir :: "env \<Rightarrow> string" where
  "scripts_dir e = deployment_dir e @ ''scripts''"

definition templates_dir :: "env \<Rightarrow> string" where
  "templates_dir e = deployment_dir e @ ''templates''"

definition init :: "env \<Rightarrow> unit prog" where
  "init e w =
     (Inr (), w\<lparr>config := VDict [],
                dirs := dirs w \<union> {config_dir e, scripts_dir e, templates_dir e}\<rparr>)"

definition welcome_message :: "unit prog" where
  "welcome_message =
     steps [
       print (replicate 60 (CHR ''='')),
       print (mark_target @ '' MAGMA CORE DEPLOYMENT TOOL''),
       print (replicate 60 (CHR ''='')),
       print (newline @ ''This tool will guide you through deploying Magma Core components:''),
       print (mark_antenna @ '' Orchestrator (ORC8R) - Central management plane''),
       print (mark_globe @ '' Access Gateway (AGW) - Radio access network gateway''),
       print (mark_link @ '' Federated Gateway (FGW) - Federation with external networks''),
       print (mark_laptop @ '' Network Management System (NMS) - Web-based management''),
       print (newline @ ''Prerequisites:''),
       print ''- Docker and Docker Compose installed'',
       print ''- Kubernetes cluster (for orchestrator)'',
       print ''- Sufficient system resources (8GB+ RAM recommended)'',
       print ''- Network connectivity for downloading images'',
       print (replicate 60 (CHR ''='')),
       andthen (confirm_action ''Do you want to continue with the deployment?'') (\<lambda>go.
         if \<not> go then steps [print ''Deployment cancelled.'', sys_exit 0] else ret ())
     ]"

section \<open>The prerequisite checker and installer\<close>

definition install_docker :: "env \<Rightarrow> string \<Rightarrow> unit prog" where
  \<open>install_docker e package_manager =
     steps [
       run_all e
         (if package_manager = ''apt'' then [
            ''sudo apt-get update'',
            ''sudo apt-get install -y apt-transport-https ca-certificates curl gnupg lsb-release'',
            ''curl -fsSL https://download.docker.com/linux/ubuntu/gpg | sudo gpg --dearmor -o /usr/share/keyrings/docker-archive-keyring.gpg'',
            ''echo "deb [arch=amd64 signed-by=/usr/share/keyrings/docker-archive-keyring.gpg] https://download.docker.com/linux/ubuntu $(lsb_release -cs) stable" | sudo tee /etc/apt/sources.list.d/docker.list > /dev/null'',
            ''sudo apt-get update'',
            ''sudo apt-get install -y docker-ce docker-ce-cli containerd.io'']
          else [
            ''sudo yum install -y yum-utils'',
            ''sudo yum-config-manager --add-repo https://download.docker.com/linux/centos/docker-ce.repo'',
            ''sudo yum install -y docker-ce docker-ce-cli containerd.io'']),
       andthen (run_command e ''sudo systemctl start docker'' True) (\<lambda>_. ret ()),
       andthen (run_command e ''sudo systemctl enable docker'' True) (\<lambda>_. ret ()),
       andthen (run_command e ''whoami'' True) (\<lambda>result.
       andthen (run_command e (''sudo usermod -aG docker '' @ strip (stdout result)) True) (\<lambda>_. ret ())),
       print (mark_warning @ ''  Please log out and log back in to use Docker without sudo'')
     ]\<close>

definition install_docker_compose :: "env \<Rightarrow> unit prog" where
  \<open>install_docker_compose e =
     run_all e [
       ''sudo curl -L "https://github.com/docker/compose/releases/download/1.29.2/docker-compose-$(uname -s)-$(uname -m)" -o /usr/local/bin/docker-compose'',
       ''sudo chmod +x /usr/local/bin/docker-compose'']\<close>

definition install_kubectl :: "env \<Rightarrow> unit prog" where
  \<open>install_kubectl e =
     run_all e [
       ''curl -LO "https://dl.k8s.io/release/$(curl -L -s https://dl.k8s.io/release/stable.txt)/bin/linux/amd64/kubectl"'',
       ''sudo install -o root -g root -m 0755 kubectl /usr/local/bin/kubectl'']\<close>

definition install_helm :: "env \<Rightarrow> unit prog" where
  "install_helm e =
     run_all e [''curl https://raw.githubusercontent.com/helm/helm/main/scripts/get-helm-3 | bash'']"

text \<open>The body of the installer's \<^verbatim>\<open>try\<close>, for one missing tool.\<close>

definition install_one :: "env \<Rightarrow> string \<Rightarrow> string \<Rightarrow> unit prog" where
  "install_one e package_manager dep =
     (if dep = ''docker'' then install_docker e package_manager
      else if dep = ''docker-compose'' then install_docker_compose e
      else if dep = ''kubectl'' then install_kubectl e
      else if dep = ''helm'' then install_helm e
      else if dep = ''git'' then
        (if package_manager = ''apt''
         then andthen (run_command e ''sudo apt-get update && sudo apt-get install -y git'' True) (\<lambda>_. ret ())
         else andthen (run_command e ''sudo yum install -y git'' True) (\<lambda>_. ret ()))
      else ret ())"

text \<open>The installer's loop: the first failure logs and returns \<^verbatim>\<open>False\<close>.\<close>

fun install_each :: "env \<Rightarrow> string \<Rightarrow> string list \<Rightarrow> bool prog" where
  "install_each e package_manager [] = ret True"
| "install_each e package_manager (dep # deps) =
     andthen
       (try_except (andthen (install_one e package_manager dep) (\<lambda>_. ret True)) is_Exception
          (\<lambda>ex. andthen (logger_error (''Failed to install '' @ dep @ '': '' @ exn_text ex)) (\<lambda>_.
                ret False)))
       (\<lambda>installed. if installed then install_each e package_manager deps else ret False)"

text \<open>
  The detection of the package manager; \<open>None\<close> stands for the two \<^verbatim>\<open>return False\<close>.
  The bare \<^verbatim>\<open>except\<close> catches every exception, an interrupt included.
\<close>

definition detect_os :: "env \<Rightarrow> string option prog" where
  "detect_os e =
     try_except
       (andthen (run_command e ''cat /etc/os-release'' True) (\<lambda>result.
          let os_release = stdout result
          in if str_in ''ubuntu'' (lower os_release) \<or> str_in ''debian'' (lower os_release)
             then ret (Some ''apt'')
             else if str_in ''centos'' (lower os_release) \<or> str_in ''rhel'' (lower os_release)
             then ret (Some ''yum'')
             else andthen (print ''Unsupported OS. Please install prerequisites manually.'') (\<lambda>_.
                  ret None)))
       (\<lambda>ex. True)
       (\<lambda>ex. andthen (print ''Could not detect OS. Please install prerequisites manually.'') (\<lambda>_.
             ret None))"

definition install_prerequisites :: "env \<Rightarrow> string list \<Rightarrow> bool prog" where
  "install_prerequisites e missing_deps =
     andthen (print (newline @ mark_package @ '' Installing prerequisites...'')) (\<lambda>_.
     andthen (detect_os e) (\<lambda>detected.
       case detected of
         None \<Rightarrow> ret False
       | Some package_manager \<Rightarrow> install_each e package_manager missing_deps))"

definition prerequisites :: "(string \<times> string) list" where
  "prerequisites = [
     (''docker'', ''Docker is required for container deployment''),
     (''docker-compose'', ''Docker Compose is required for multi-container deployment''),
     (''kubectl'', ''Kubernetes CLI is required for orchestrator deployment''),
     (''helm'', ''Helm is required for Kubernetes deployments''),
     (''git'', ''Git is required for cloning repositories'')]"

text \<open>One round of the probing loop: whether the tool was found.\<close>

definition probe :: "env \<Rightarrow> string \<Rightarrow> string \<Rightarrow> bool prog" where
  "probe e cmd description =
     try_except
       (andthen (run_command e (''which '' @ cmd) False) (\<lambda>result.
          if returncode result = 0
          then andthen (print (mark_ok @ '' '' @ cmd @ '' found'')) (\<lambda>_. ret True)
          else andthen (print (mark_fail @ '' '' @ cmd @ '' not found - '' @ description)) (\<lambda>_.
               ret False)))
       is_Exception
       (\<lambda>ex. andthen (print (mark_fail @ '' Error checking '' @ cmd @ '': '' @ exn_text ex)) (\<lambda>_.
             ret False))"

fun probe_each :: "env \<Rightarrow> (string \<times> string) list \<Rightarrow> string list \<Rightarrow> string list prog" where
  "probe_each e [] missing_deps = ret missing_deps"
| "probe_each e ((cmd, description) # rest) missing_deps =
     andthen (probe e cmd description) (\<lambda>found.
       probe_each e rest (if found then missing_deps else missing_deps @ [cmd]))"

definition check_prerequisites :: "env \<Rightarrow> bool prog" where
  "check_prerequisites e =
     andthen (print (newline @ mark_search @ '' Checking prerequisites...'')) (\<lambda>_.
     andthen (probe_each e prerequisites []) (\<lambda>missing_deps.
       if missing_deps \<noteq> [] then
         andthen (print (newline @ mark_warning @ ''  Missing dependencies: ''
                          @ join '', '' missing_deps)) (\<lambda>_.
         andthen (confirm_action ''Do you want to install missing dependencies automatically?'') (\<lambda>yes.
           if yes then install_prerequisites e missing_deps
           else andthen (print ''Please install missing dependencies manually and run the script again.'') (\<lambda>_.
                ret False)))
       else andthen (print (mark_ok @ '' All prerequisites are available!'')) (\<lambda>_. ret True)))"


section \<open>The questionnaire\<close>

text \<open>The custom selection (choice 5): one confirmation per component, in a fixed order.\<close>

fun custom_selection :: "string list \<Rightarrow> unit prog" where
  "custom_selection [] = ret ()"
| "custom_selection (component # components) =
     andthen (confirm_action (''Deploy '' @ upper component @ ''?'')) (\<lambda>yes.
     andthen (if yes then config_append [''components''] (VStr component) else ret ()) (\<lambda>_.
     custom_selection components))"

text \<open>The \<^verbatim>\<open>if/elif\<close> chain on the menu choice; it has no \<^verbatim>\<open>else\<close>.\<close>

definition select_components :: "string \<Rightarrow> unit prog" where
  "select_components choice =
     (if choice = ''1'' then
        config_set [''components''] (VList [VStr ''orchestrator'', VStr ''agw'', VStr ''fgw'', VStr ''nms''])
      else if choice = ''2'' then config_set [''components''] (VList [VStr ''orchestrator''])
      else if choice = ''3'' then config_set [''components''] (VList [VStr ''agw''])
      else if choice = ''4'' then config_set [''components''] (VList [VStr ''fgw''])
      else if choice = ''5'' then
        andthen (config_set [''components''] (VList [])) (\<lambda>_.
        custom_selection [''orchestrator'', ''agw'', ''fgw'', ''nms''])
      else ret ())"

definition collect_orchestrator_config :: "unit prog" where
  "collect_orchestrator_config =
     steps [
       print (newline @ mark_crane @ ''  Orchestrator Configuration''),
       config_set [''orchestrator''] (VDict []),
       ask [''orchestrator'', ''namespace''] ''Kubernetes namespace'' (Some ''magma'') True,
       ask [''orchestrator'', ''storage_class''] ''Storage class'' (Some ''standard'') True,
       ask [''orchestrator'', ''db_host''] ''Database host'' (Some ''postgresql'') True,
       ask [''orchestrator'', ''db_port''] ''Database port'' (Some ''5432'') True,
       ask [''orchestrator'', ''db_user''] ''Database user'' (Some ''magma'') True,
       andthen (get_password ''Database password'') (\<lambda>v.
         config_set [''orchestrator'', ''db_password''] (VStr v)),
       ask [''orchestrator'', ''db_name''] ''Database name'' (Some ''magma'') True,
       ask [''orchestrator'', ''tls_cert_path''] ''TLS certificate path''
         (Some ''/opt/magma/certs/tls.crt'') False,
       ask [''orchestrator'', ''tls_key_path''] ''TLS key path''
         (Some ''/opt/magma/certs/tls.key'') False
     ]"

definition collect_agw_config :: "env \<Rightarrow> unit prog" where
  "collect_agw_config e =
     steps [
       print (newline @ mark_antenna @ '' Access Gateway Configuration''),
       config_set [''agw''] (VDict []),
       ask [''agw'', ''interface''] ''Network interface'' (Some ''eth0'') True,
       ask [''agw'', ''ip_address''] ''AGW IP address'' None True,
       while_invalid (validate_ip_address e) [''agw'', ''ip_address'']
         ''Invalid IP address format.'' ''AGW IP address'',
       ask [''agw'', ''mcc''] ''Mobile Country Code (MCC)'' (Some ''001'') True,
       ask [''agw'', ''mnc''] ''Mobile Network Code (MNC)'' (Some ''01'') True,
       ask [''agw'', ''tac''] ''Tracking Area Code (TAC)'' (Some ''1'') True,
       andthen (config_str [''agw'', ''ip_address'']) (\<lambda>ip.
         ask [''agw'', ''s1ap_ip''] ''S1AP IP address'' (Some ip) True),
       ask [''agw'', ''s1ap_port''] ''S1AP port'' (Some ''36412'') True
     ]"

definition collect_fgw_config :: "unit prog" where
  "collect_fgw_config =
     steps [
       print (newline @ mark_link @ '' Federated Gateway Configuration''),
       config_set [''fgw''] (VDict []),
       ask [''fgw'', ''federation_id''] ''Federation ID'' (Some ''fgw01'') True,
       andthen (get_user_input ''Served network IDs (comma-separated)'' (Some ''network1,network2'') True)
         (\<lambda>v. config_set [''fgw'', ''served_network_ids''] (VList (map VStr (split v (CHR '','')))))
       ,
       ask [''fgw'', ''diameter_host''] ''Diameter host'' (Some ''fgw.magma.local'') True,
       ask [''fgw'', ''diameter_realm''] ''Diameter realm'' (Some ''magma.local'') True,
       ask [''fgw'', ''diameter_port''] ''Diameter port'' (Some ''3868'') True
     ]"

definition config_file :: "env \<Rightarrow> string" where
  "config_file e = config_dir e @ ''/deployment_config.yaml''"

text \<open>\<^verbatim>\<open>yaml.dump(self.config, f, default_flow_style=False)\<close> into the configuration file.\<close>

definition save_config :: "env \<Rightarrow> unit prog" where
  "save_config e w = write_file (config_file e) (dump e (config w)) w"

text \<open>
  \<^verbatim>\<open>collect_deployment_config\<close> runs five blocks in a row, which the source marks by
  comments: the deployment type selection, the general configuration, the network
  configuration, the component-specific configuration, and the saving of the file.
\<close>

definition deployment_type_selection :: "unit prog" where
  "deployment_type_selection =
     steps [
       print (newline @ ''Select components to deploy:''),
       print ''1. Full Magma Stack (Orchestrator + AGW + FGW + NMS)'',
       print ''2. Orchestrator only'',
       print ''3. Access Gateway only'',
       print ''4. Federated Gateway only'',
       print ''5. Custom selection'',
       andthen (get_user_input ''Enter your choice (1-5)'' (Some ''1'') True) select_components
     ]"

definition general_configuration :: "unit prog" where
  "general_configuration =
     steps [
       ask [''domain''] ''Domain name'' (Some ''magma.local'') True,
       ask [''admin_email''] ''Admin email address'' None True,
       while_invalid validate_email [''admin_email''] ''Invalid email format.'' ''Admin email address''
     ]"

definition network_configuration :: "env \<Rightarrow> unit prog" where
  "network_configuration e =
     steps [
       print (newline @ mark_globe @ '' Network Configuration''),
       config_set [''network''] (VDict []),
       ask [''network'', ''external_ip''] ''External IP address'' None True,
       while_invalid (validate_ip_address e) [''network'', ''external_ip'']
         ''Invalid IP address format.'' ''External IP address''
     ]"

definition component_configuration :: "env \<Rightarrow> unit prog" where
  "component_configuration e =
     steps [
       andthen (config_contains ''orchestrator'' [''components'']) (\<lambda>selected.
         if selected then collect_orchestrator_config else ret ()),
       andthen (config_contains ''agw'' [''components'']) (\<lambda>selected.
         if selected then collect_agw_config e else ret ()),
       andthen (config_contains ''fgw'' [''components'']) (\<lambda>selected.
         if selected then collect_fgw_config else ret ())
     ]"

definition save_configuration :: "env \<Rightarrow> unit prog" where
  "save_configuration e =
     steps [
       save_config e,
       print (newline @ mark_ok @ '' Configuration saved to '' @ config_file e)
     ]"

definition collect_deployment_config :: "env \<Rightarrow> unit prog" where
  "collect_deployment_config e =
     steps [
       print (newline @ mark_clipboard @ '' DEPLOYMENT CONFIGURATION''),
       print (replicate 40 (CHR ''='')),
       deployment_type_selection,
       general_configuration,
       network_configuration e,
       component_configuration e,
       save_configuration e
     ]"

section \<open>The script generator\<close>

text \<open>
  An f-string is a row of literal texts and substituted expressions, evaluated from left to
  right; the expressions of this program are \<^verbatim>\<open>self.config[k1]...[kn]\<close> and
  \<^verbatim>\<open>self.config[k1].get(k, d)\<close>. A template is the list of its lines.
\<close>

datatype piece = Text string | Field "string list" | FieldOr "string list" string string

fun render_piece :: "pyval \<Rightarrow> piece \<Rightarrow> exn + string" where
  "render_piece cfg (Text s) = Inr s"
| "render_piece cfg (Field path) =
     (case get_path cfg path of Inl e \<Rightarrow> Inl e | Inr v \<Rightarrow> Inr (py_str v))"
| "render_piece cfg (FieldOr path k d) =
     (case get_path cfg path of
        Inl e \<Rightarrow> Inl e
      | Inr sub \<Rightarrow> (case get_default sub k d of Inl e \<Rightarrow> Inl e | Inr v \<Rightarrow> Inr (py_str v)))"

fun render :: "pyval \<Rightarrow> piece list \<Rightarrow> exn + string" where
  "render cfg [] = Inr []"
| "render cfg (p # ps) =
     (case render_piece cfg p of
        Inl e \<Rightarrow> Inl e
      | Inr s \<Rightarrow> (case render cfg ps of Inl e \<Rightarrow> Inl e | Inr t \<Rightarrow> Inr (s @ t)))"

definition render_lines :: "pyval \<Rightarrow> piece list list \<Rightarrow> exn + string" where
  "render_lines cfg template = render cfg (concat (map (\<lambda>l. l @ [Text newline]) template))"

definition fstring :: "piece list \<Rightarrow> string prog" where
  "fstring pieces w = (render (config w) pieces, w)"

definition orchestrator_template :: "piece list list" where
  \<open>orchestrator_template = [
    [Text ''#!/bin/bash''],
    [Text ''set -e''],
    [],
    [Text (''echo "'' @ mark_crane @ ''  Deploying Magma Orchestrator..."'')],
    [],
    [Text ''# Add Magma Helm repository''],
    [Text ''helm repo add magma https://magma.github.io/magma/helm-charts''],
    [Text ''helm repo update''],
    [],
    [Text ''# Create TLS certificates if not provided''],
    [Text ''if [[ ! -f "'', FieldOr [''orchestrator''] ''tls_cert_path'' ''/opt/magma/certs/tls.crt'', Text ''" ]]; then''],
    [Text ''    echo "Generating TLS certificates..."''],
    [Text ''    mkdir -p /opt/magma/certs''],
    [Text ''    openssl req -x509 -newkey rsa:4096 -keyout /opt/magma/certs/tls.key -out /opt/magma/certs/tls.crt -days 365 -nodes -subj "/CN='', Field [''domain''], Text ''"''],
    [Text ''fi''],
    [],
    [Text ''# Deploy PostgreSQL''],
    [Text (''helm upgrade --install postgresql oci://registry-1.docker.io/bitnamicharts/postgresql '' @ backslash)],
    [Text ''    --namespace '', Field [''orchestrator'', ''namespace''], Text ('' '' @ backslash)],
    [Text ''    --set auth.postgresPassword='', Field [''orchestrator'', ''db_password''], Text ('' '' @ backslash)],
    [Text ''    --set auth.database='', Field [''orchestrator'', ''db_name''], Text ('' '' @ backslash)],
    [Text ''    --set auth.username='', Field [''orchestrator'', ''db_user''], Text ('' '' @ backslash)],
    [Text ''    --set primary.persistence.storageClass='', Field [''orchestrator'', ''storage_class'']],
    [],
    [Text ''# Wait for PostgreSQL to be ready''],
    [Text ''kubectl wait --for=condition=ready pod -l app.kubernetes.io/name=postgresql -n '', Field [''orchestrator'', ''namespace''], Text '' --timeout=300s''],
    [],
    [Text ''# Deploy Orchestrator''],
    [Text (''helm upgrade --install orc8r magma/orc8r '' @ backslash)],
    [Text ''    --namespace '', Field [''orchestrator'', ''namespace''], Text ('' '' @ backslash)],
    [Text ''    --set global.domain='', Field [''domain''], Text ('' '' @ backslash)],
    [Text ''    --set postgresql.host='', Field [''orchestrator'', ''db_host''], Text ('' '' @ backslash)],
    [Text ''    --set postgresql.port='', Field [''orchestrator'', ''db_port''], Text ('' '' @ backslash)],
    [Text ''    --set postgresql.user='', Field [''orchestrator'', ''db_user''], Text ('' '' @ backslash)],
    [Text ''    --set postgresql.password='', Field [''orchestrator'', ''db_password''], Text ('' '' @ backslash)],
    [Text ''    --set postgresql.database='', Field [''orchestrator'', ''db_name''], Text ('' '' @ backslash)],
    [Text ''    --set-file tls.crt='', FieldOr [''orchestrator''] ''tls_cert_path'' ''/opt/magma/certs/tls.crt'', Text ('' '' @ backslash)],
    [Text ''    --set-file tls.key='', FieldOr [''orchestrator''] ''tls_key_path'' ''/opt/magma/certs/tls.key''],
    [],
    [Text (''echo "'' @ mark_ok @ '' Orchestrator deployment completed"'')]
  ]\<close>

definition agw_template :: "piece list list" where
  \<open>agw_template = [
    [Text ''#!/bin/bash''],
    [Text ''set -e''],
    [],
    [Text (''echo "'' @ mark_antenna @ '' Deploying Access Gateway..."'')],
    [],
    [Text ''# Clone Magma repository''],
    [Text ''if [[ ! -d "magma" ]]; then''],
    [Text ''    git clone https://github.com/magma/magma.git''],
    [Text ''fi''],
    [],
    [Text ''cd magma''],
    [],
    [Text ''# Build AGW''],
    [Text ''cd lte/gateway''],
    [Text ''make build''],
    [],
    [Text ''# Configure AGW''],
    [Text ''mkdir -p /etc/magma''],
    [Text ''cat > /etc/magma/gateway.mconfig << EOF''],
    [Text ''---''],
    [Text ''magmad_config:''],
    [Text ''  checkin_interval: 60''],
    [Text ''  checkin_timeout: 30''],
    [Text ''  autoupgrade_enabled: false''],
    [Text ''  autoupgrade_poll_interval: 300''],
    [Text ''  package_version: "0.0.0-0"''],
    [Text ''  images: []''],
    [Text ''  tier: "default"''],
    [Text ''  feature_flags: {}''],
    [Text ''  dynamic_services: []''],
    [],
    [Text ''mconfig:''],
    [Text ''  mobility_config:''],
    [Text ''    ip_pool: "192.168.128.0/24"''],
    [Text ''    static_ip_enabled: false''],
    [Text ''    multi_apn_ip_alloc: false''],
    [Text ''    nat_enabled: true''],
    [Text ''    enable_static_ip_assignments: false''],
    [Text ''    ''],
    [Text ''  mme_config:''],
    [Text ''    mcc: "'', Field [''agw'', ''mcc''], Text ''"''],
    [Text ''    mnc: "'', Field [''agw'', ''mnc''], Text ''"''],
    [Text ''    tac: '', Field [''agw'', ''tac'']],
    [Text ''    mme_code: 1''],
    [Text ''    mme_gid: 1''],
    [Text ''    enable_dns_caching: false''],
    [Text ''    non_eps_service_control: 0''],
    [Text ''    csfb_mcc: "'', Field [''agw'', ''mcc''], Text ''"''],
    [Text ''    csfb_mnc: "'', Field [''agw'', ''mnc''], Text ''"''],
    [Text ''    lac: 1''],
    [Text ''    s1ap_ip: "'', Field [''agw'', ''s1ap_ip''], Text ''"''],
    [Text ''    s1ap_port: '', Field [''agw'', ''s1ap_port'']],
    [Text ''    ''],
    [Text ''  spgw_config:''],
    [Text ''    enable_nat: true''],
    [Text ''    gtpu_endpoint: "'', Field [''agw'', ''ip_address''], Text ''"''],
    [Text ''    ''],
    [Text ''  enodebd_config:''],
    [Text ''    earfcndl: 44490''],
    [Text ''    subframe_assignment: 2''],
    [Text ''    special_subframe_pattern: 7''],
    [Text ''    pci: 260''],
    [Text ''    plmn_ids:''],
    [Text ''      - mcc: "'', Field [''agw'', ''mcc''], Text ''"''],
    [Text ''        mnc: "'', Field [''agw'', ''mnc''], Text ''"''],
    [Text ''EOF''],
    [],
    [Text ''# Start AGW services''],
    [Text ''sudo systemctl enable magma@*''],
    [Text ''sudo systemctl start magma@*''],
    [],
    [Text (''echo "'' @ mark_ok @ '' Access Gateway deployment completed"'')]
  ]\<close>

definition fgw_template :: "piece list list" where
  \<open>fgw_template = [
    [Text ''#!/bin/bash''],
    [Text ''set -e''],
    [],
    [Text (''echo "'' @ mark_link @ '' Deploying Federated Gateway..."'')],
    [],
    [Text ''# Clone Magma repository''],
    [Text ''if [[ ! -d "magma" ]]; then''],
    [Text ''    git clone https://github.com/magma/magma.git''],
    [Text ''fi''],
    [],
    [Text ''cd magma''],
    [],
    [Text ''# Build FGW''],
    [Text ''cd feg/gateway''],
    [Text ''make build''],
    [],
    [Text ''# Configure FGW''],
    [Text ''mkdir -p /etc/magma''],
    [Text ''cat > /etc/magma/feg_gateway.mconfig << EOF''],
    [Text ''---''],
    [Text ''magmad_config:''],
    [Text ''  checkin_interval: 60''],
    [Text ''  checkin_timeout: 30''],
    [Text ''  autoupgrade_enabled: false''],
    [Text ''  autoupgrade_poll_interval: 300''],
    [Text ''  package_version: "0.0.0-0"''],
    [Text ''  images: []''],
    [Text ''  tier: "default"''],
    [Text ''  feature_flags: {}''],
    [Text ''  dynamic_services: []''],
    [],
    [Text ''mconfig:''],
    [Text ''  federation_config:''],
    [Text ''    federation_id: "'', Field [''fgw'', ''federation_id''], Text ''"''],
    [Text ''    served_network_ids: '', Field [''fgw'', ''served_network_ids'']],
    [Text ''    ''],
    [Text ''  diameter_config:''],
    [Text ''    host: "'', Field [''fgw'', ''diameter_host''], Text ''"''],
    [Text ''    realm: "'', Field [''fgw'', ''diameter_realm''], Text ''"''],
    [Text ''    port: '', Field [''fgw'', ''diameter_port'']],
    [Text ''    ''],
    [Text ''  health_config:''],
    [Text ''    health_service_enabled: true''],
    [Text ''    update_interval_secs: 10''],
    [Text ''    cloud_disable_period_secs: 10''],
    [Text ''    local_disable_period_secs: 1''],
    [Text ''    ''],
    [Text ''  session_proxy_config:''],
    [Text ''    request_timeout: 30''],
    [Text ''    endpoint_timeout: 30''],
    [Text ''EOF''],
    [],
    [Text ''# Start FGW services''],
    [Text ''sudo systemctl enable magma@*''],
    [Text ''sudo systemctl start magma@*''],
    [],
    [Text (''echo "'' @ mark_ok @ '' Federated Gateway deployment completed"'')]
  ]\<close>

definition nms_template :: "piece list list" where
  \<open>nms_template = [
    [Text ''#!/bin/bash''],
    [Text ''set -e''],
    [],
    [Text (''echo "'' @ mark_laptop @ '' Deploying Network Management System..."'')],
    [],
    [Text ''# Add Magma Helm repository''],
    [Text ''helm repo add magma https://magma.github.io/magma/helm-charts''],
    [Text ''helm repo update''],
    [],
    [Text ''# Deploy NMS''],
    [Text (''helm upgrade --install nms magma/nms '' @ backslash)],
    [Text ''    --namespace '', Field [''orchestrator'', ''namespace''], Text ('' '' @ backslash)],
    [Text ''    --set global.domain='', Field [''domain''], Text ('' '' @ backslash)],
    [Text ''    --set nms.admin.email='', Field [''admin_email''], Text ('' '' @ backslash)],
    [Text ''    --set nms.host='', Field [''domain''], Text ('' '' @ backslash)],
    [Text ''    --set nms.port=8080''],
    [],
    [Text (''echo "'' @ mark_ok @ '' Network Management System deployment completed"'')]
  ]\<close>

text \<open>
  Each generator evaluates its f-string and, if that raised nothing, writes the file.
\<close>

definition generate_script :: "piece list list \<Rightarrow> string \<Rightarrow> unit prog" where
  "generate_script template script_path w =
     (case render_lines (config w) template of
        Inl e \<Rightarrow> (Inl e, w)
      | Inr script_content \<Rightarrow> write_file script_path script_content w)"

definition generate_orchestrator_script :: "string \<Rightarrow> unit prog" where
  "generate_orchestrator_script script_path = generate_script orchestrator_template script_path"

definition generate_agw_script :: "string \<Rightarrow> unit prog" where
  "generate_agw_script script_path = generate_script agw_template script_path"

definition generate_fgw_script :: "string \<Rightarrow> unit prog" where
  "generate_fgw_script script_path = generate_script fgw_template script_path"

definition generate_nms_script :: "string \<Rightarrow> unit prog" where
  "generate_nms_script script_path = generate_script nms_template script_path"

section \<open>Deployment and summary\<close>

definition deploy_orchestrator :: "env \<Rightarrow> unit prog" where
  "deploy_orchestrator e =
     (let orc8r_script = scripts_dir e @ ''/deploy_orchestrator.sh''
      in steps [
           print ''Setting up Orchestrator...'',
           try_except
             (andthen (fstring [Text ''kubectl create namespace '', Field [''orchestrator'', ''namespace'']])
                (\<lambda>command. andthen (run_command e command True) (\<lambda>_. ret ())))
             is_CalledProcessError
             (\<lambda>ex. print ''Namespace already exists or error creating it''),
           generate_orchestrator_script orc8r_script,
           andthen (run_command e (''chmod +x '' @ orc8r_script) True) (\<lambda>_. ret ()),
           andthen (run_command e orc8r_script True) (\<lambda>_. ret ())
         ])"

definition deploy_agw :: "env \<Rightarrow> unit prog" where
  "deploy_agw e =
     (let agw_script = scripts_dir e @ ''/deploy_agw.sh''
      in steps [
           print ''Setting up Access Gateway...'',
           generate_agw_script agw_script,
           andthen (run_command e (''chmod +x '' @ agw_script) True) (\<lambda>_. ret ()),
           andthen (run_command e agw_script True) (\<lambda>_. ret ())
         ])"

definition deploy_fgw :: "env \<Rightarrow> unit prog" where
  "deploy_fgw e =
     (let fgw_script = scripts_dir e @ ''/deploy_fgw.sh''
      in steps [
           print ''Setting up Federated Gateway...'',
           generate_fgw_script fgw_script,
           andthen (run_command e (''chmod +x '' @ fgw_script) True) (\<lambda>_. ret ()),
           andthen (run_command e fgw_script True) (\<lambda>_. ret ())
         ])"

definition deploy_nms :: "env \<Rightarrow> unit prog" where
  "deploy_nms e =
     (let nms_script = scripts_dir e @ ''/deploy_nms.sh''
      in steps [
           print ''Setting up Network Management System...'',
           generate_nms_script nms_script,
           andthen (run_command e (''chmod +x '' @ nms_script) True) (\<lambda>_. ret ()),
           andthen (run_command e nms_script True) (\<lambda>_. ret ())
         ])"

definition display_deployment_summary :: "env \<Rightarrow> unit prog" where
  "display_deployment_summary e =
     steps [
       print (newline @ mark_party @ '' DEPLOYMENT SUMMARY''),
       print (replicate 40 (CHR ''='')),
       andthen (config_contains ''orchestrator'' [''components'']) (\<lambda>selected.
         if selected then steps [
           andthen (fstring [Text (mark_antenna @ '' Orchestrator: https://''), Field [''domain'']]) print,
           andthen (fstring [Text ''   Namespace: '', Field [''orchestrator'', ''namespace'']]) print]
         else ret ()),
       andthen (config_contains ''nms'' [''components'']) (\<lambda>selected.
         if selected then steps [
           andthen (fstring [Text (mark_laptop @ '' NMS Portal: https://''), Field [''domain''],
                             Text '':8080'']) print,
           andthen (fstring [Text ''   Admin Email: '', Field [''admin_email'']]) print]
         else ret ()),
       andthen (config_contains ''agw'' [''components'']) (\<lambda>selected.
         if selected then steps [
           andthen (fstring [Text (mark_antenna @ '' Access Gateway: ''), Field [''agw'', ''ip_address'']]) print,
           andthen (fstring [Text ''   Network: '', Field [''agw'', ''mcc''], Text ''-'',
                             Field [''agw'', ''mnc'']]) print]
         else ret ()),
       andthen (config_contains ''fgw'' [''components'']) (\<lambda>selected.
         if selected then steps [
           andthen (fstring [Text (mark_link @ '' Federated Gateway: ''), Field [''fgw'', ''federation_id'']]) print,
           andthen (fstring [Text ''   Diameter: '', Field [''fgw'', ''diameter_host''], Text '':'',
                             Field [''fgw'', ''diameter_port'']]) print]
         else ret ()),
       print (newline @ mark_clipboard @ '' Next Steps:''),
       print ''1. Verify all services are running'',
       print ''2. Configure your network devices to connect to the gateways'',
       print ''3. Access the NMS portal to manage your network'',
       print ''4. Monitor logs for any issues'',
       print (newline @ mark_folder @ '' Configuration saved in: '' @ config_dir e),
       print (mark_folder @ '' Logs available in: magma_deploy.log'')
     ]"

text \<open>The body of the deployment loop, for one element of the components value.\<close>

definition deploy_component :: "env \<Rightarrow> pyval \<Rightarrow> unit prog" where
  "deploy_component e component =
     steps [
       andthen (lift (upper_of component)) (\<lambda>name.
         print (newline @ mark_package @ '' Deploying '' @ name @ ''...'')),
       (if component = VStr ''orchestrator'' then deploy_orchestrator e
        else if component = VStr ''agw'' then deploy_agw e
        else if component = VStr ''fgw'' then deploy_fgw e
        else if component = VStr ''nms'' then deploy_nms e
        else ret ()),
       andthen (lift (upper_of component)) (\<lambda>name.
         print (mark_ok @ '' '' @ name @ '' deployment completed''))
     ]"

fun deploy_each :: "env \<Rightarrow> pyval list \<Rightarrow> unit prog" where
  "deploy_each e [] = ret ()"
| "deploy_each e (component # components) =
     andthen (deploy_component e component) (\<lambda>_. deploy_each e components)"

definition deploy_components :: "env \<Rightarrow> unit prog" where
  "deploy_components e =
     steps [
       print (newline @ mark_rocket @ '' STARTING DEPLOYMENT''),
       print (replicate 40 (CHR ''='')),
       andthen (config_get [''components'']) (\<lambda>v.
       andthen (lift (iterate v)) (\<lambda>components.
       deploy_each e components)),
       print (newline @ mark_party @ '' All selected components deployed successfully!''),
       display_deployment_summary e
     ]"

section \<open>The run\<close>

text \<open>The body of the \<^verbatim>\<open>try\<close> of \<^verbatim>\<open>run_deployment\<close>, and the function with its two handlers.\<close>

definition workflow :: "env \<Rightarrow> bool prog" where
  "workflow e =
     andthen welcome_message (\<lambda>_.
     andthen (check_prerequisites e) (\<lambda>ready.
       if \<not> ready then ret False
       else
         andthen (collect_deployment_config e) (\<lambda>_.
         andthen (confirm_action ''Do you want to proceed with the deployment?'') (\<lambda>go.
           if go then andthen (deploy_components e) (\<lambda>_. ret True)
           else andthen (print ''Deployment cancelled by user.'') (\<lambda>_. ret False)))))"

definition run_deployment :: "env \<Rightarrow> bool prog" where
  "run_deployment e =
     try_except
       (try_except
          (workflow e)
          (\<lambda>ex. ex = KeyboardInterrupt)
          (\<lambda>ex. andthen (print (newline @ newline @ mark_warning @ ''  Deployment interrupted by user.''))
                  (\<lambda>_. ret False)))
       is_Exception
       (\<lambda>ex. andthen (logger_error (''Deployment failed: '' @ exn_text ex)) (\<lambda>_.
             andthen (print (newline @ mark_fail @ '' Deployment failed: '' @ exn_text ex)) (\<lambda>_.
             ret False)))"

text \<open>
  \<^verbatim>\<open>args = parser.parse_args()\<close>: a rejected command line ends the run with exit code 2,
  a request for help prints the help text and ends it with exit code 0.
\<close>

definition parse_args :: "env \<Rightarrow> string list \<Rightarrow> args prog" where
  "parse_args e argv w =
     (case argparse e argv of
        Parsed a \<Rightarrow> (Inr a, w)
      | Rejected \<Rightarrow> (Inl (SystemExit 2), w)
      | Help text \<Rightarrow> (Inl (SystemExit 0), w\<lparr>printed := printed w @ [text]\<rparr>))"

text \<open>\<^verbatim>\<open>with open(args.config, 'r') as f: deployment.config = yaml.safe_load(f)\<close>.\<close>

definition load_config :: "env \<Rightarrow> string \<Rightarrow> unit prog" where
  "load_config e path w =
     (case files w path of
        None \<Rightarrow> (Inl (FileNotFoundError path), w)
      | Some content \<Rightarrow>
          (case safe_load e content of
             Malformed problem \<Rightarrow> (Inl (YAMLError problem), w)
           | Stopped \<Rightarrow> (Inl KeyboardInterrupt, w)
           | Document v \<Rightarrow> (Inr (), w\<lparr>config := v\<rparr>)))"

text \<open>The \<^verbatim>\<open>if args.config:\<close> block of \<^verbatim>\<open>main\<close>.\<close>

definition load_step :: "env \<Rightarrow> args \<Rightarrow> unit prog" where
  "load_step e a =
     (if truthy (config_arg a) then
        try_except
          (andthen (load_config e (text_of (config_arg a))) (\<lambda>_.
           print (mark_ok @ '' Configuration loaded from '' @ text_of (config_arg a))))
          is_Exception
          (\<lambda>ex. andthen (print (mark_fail @ '' Error loading configuration: '' @ exn_text ex)) (\<lambda>_.
                sys_exit 1))
      else ret ())"

text \<open>\<^verbatim>\<open>main\<close>, run on the command line \<open>argv\<close> (the arguments after the script's name).\<close>

definition main :: "env \<Rightarrow> string list \<Rightarrow> unit prog" where
  "main e argv =
     andthen (parse_args e argv) (\<lambda>a.
     steps [
       init e,
       load_step e a,
       andthen (run_deployment e) (\<lambda>succeeded.
         if succeeded
         then andthen (print (newline @ mark_party @ '' Deployment completed successfully!'')) (\<lambda>_.
              sys_exit 0)
         else andthen (print (newline @ mark_fail @ '' Deployment failed!'')) (\<lambda>_.
              sys_exit 1))
     ])"

section \<open>Sample runs\<close>

text \<open>
  A world in which nothing has happened yet, the command line without options as parsed, a
  parser for the plain spellings of the options, and an environment in which every tool is
  found and every command succeeds. They serve the concrete runs below.
\<close>

definition world0 :: world where
  "world0 = \<lparr>config = VDict [], stdin = [], printed = [], logged = [], files = Map.empty,
             dirs = {}, history = []\<rparr>"

definition plain :: args where
  "plain = \<lparr>config_arg = None, skip_prerequisites = False, dry_run = False\<rparr>"

fun sample_parser :: "args \<Rightarrow> string list \<Rightarrow> parsed" where
  "sample_parser a [] = Parsed a"
| "sample_parser a [x] =
     (if x = ''--skip-prerequisites'' then Parsed (a\<lparr>skip_prerequisites := True\<rparr>)
      else if x = ''--dry-run'' then Parsed (a\<lparr>dry_run := True\<rparr>)
      else if x = ''--help'' \<or> x = ''-h'' then Help ''usage: deploy_magma.py [-h] [--config CONFIG]''
      else Rejected)"
| "sample_parser a (x # y # xs) =
     (if x = ''--skip-prerequisites'' then sample_parser (a\<lparr>skip_prerequisites := True\<rparr>) (y # xs)
      else if x = ''--dry-run'' then sample_parser (a\<lparr>dry_run := True\<rparr>) (y # xs)
      else if x = ''--help'' \<or> x = ''-h'' then Help ''usage: deploy_magma.py [-h] [--config CONFIG]''
      else if x = ''--config'' \<and> \<not> startswith y ''-'' then sample_parser (a\<lparr>config_arg := Some y\<rparr>) xs
      else Rejected)"

definition sample_env :: env where
  "sample_env = \<lparr>shell = (\<lambda>hist cmd. Exited 0 [] []), ip_address = (\<lambda>s. s = ''10.0.0.1''),
     argparse = sample_parser plain,
     safe_load = (\<lambda>content. Malformed ''unreadable''), dump = py_repr,
     deployment_dir = ''/opt/magma-deploy/''\<rparr>"

text \<open>The complaint of a confirmation prompt, and what a row of unusable answers prints.\<close>

definition please :: string where
  "please = ''Please enter '' @ quote @ ''y'' @ quote @ '' for yes or ''
              @ quote @ ''n'' @ quote @ '' for no.''"

definition retries :: "string \<Rightarrow> string list \<Rightarrow> string list" where
  "retries m junk = concat (map (\<lambda>j. [m @ '' [y/N]: '', please @ newline]) junk)"

text \<open>
  A configuration file that loads, the command line naming it, and two rows of answers to
  the questionnaire.
\<close>

definition stored_env :: env where
  "stored_env = sample_env\<lparr>safe_load := (\<lambda>content.
     if content = ''orchestrator: {namespace: magma}''
     then Document (VDict [(''orchestrator'', VDict [(''namespace'', VStr ''magma'')])])
     else Malformed ''unreadable'')\<rparr>"

definition stored :: args where
  "stored = \<lparr>config_arg = Some ''old.yaml'', skip_prerequisites = False, dry_run = False\<rparr>"

definition federated_only :: world where
  "federated_only = world0\<lparr>stdin := [Line ''4'', Line ''example.org'', Line ''ops@example.org'',
     Line ''10.0.0.1'', Line '''', Line '''', Line '''', Line '''', Line '''']\<rparr>"

definition gateway_over_stored :: world where
  "gateway_over_stored = world0\<lparr>stdin := [Line ''3'', Line ''example.org'', Line ''ops@example.org'',
       Line ''10.0.0.1'', Line '''', Line ''10.0.0.1'', Line '''', Line '''', Line '''', Line '''',
       Line ''''],
     files := [''old.yaml'' \<mapsto> ''orchestrator: {namespace: magma}'']\<rparr>"

text \<open>The configuration the questionnaire stores for the federated gateway alone.\<close>

definition federated :: world where
  "federated = world0\<lparr>config := VDict [
         (''components'', VList [VStr ''fgw'']),
         (''domain'', VStr ''example.org''),
         (''admin_email'', VStr ''ops@example.org''),
         (''network'', VDict [(''external_ip'', VStr ''10.0.0.1'')]),
         (''fgw'', VDict [
            (''federation_id'', VStr ''fgw01''),
            (''served_network_ids'', VList [VStr ''network1'', VStr ''network2'']),
            (''diameter_host'', VStr ''fgw.magma.local''),
            (''diameter_realm'', VStr ''magma.local''),
            (''diameter_port'', VStr ''3868'')])]\<rparr>"

section \<open>Notions for the proofs\<close>

text \<open>
  What a statement can raise: \<open>catchable\<close> are the exceptions the two handlers of
  \<^verbatim>\<open>run_deployment\<close> catch, that is all but an exit.
\<close>

definition catchable :: "exn \<Rightarrow> bool" where
  "catchable ex = (is_Exception ex \<or> ex = KeyboardInterrupt)"

definition raises_only :: "(exn \<Rightarrow> bool) \<Rightarrow> 'a prog \<Rightarrow> bool" where
  "raises_only E m = (\<forall>w ex w'. m w = (Inl ex, w') \<longrightarrow> E ex)"

definition io_error :: "exn \<Rightarrow> bool" where
  "io_error ex = (ex = EOFError \<or> ex = KeyboardInterrupt)"

text \<open>
  Assertions along a run: a statement started where \<open>P\<close> holds ends where \<open>N\<close> holds
  if it returns, and where \<open>X\<close> holds if it raises.
\<close>

definition triple ::
  "(world \<Rightarrow> bool) \<Rightarrow> 'a prog \<Rightarrow> ('a \<Rightarrow> world \<Rightarrow> bool) \<Rightarrow> (exn \<Rightarrow> world \<Rightarrow> bool) \<Rightarrow> bool" where
  "triple P m N X =
     (\<forall>w. P w \<longrightarrow> (case m w of (Inl ex, w') \<Rightarrow> X ex w' | (Inr x, w') \<Rightarrow> N x w'))"

text \<open>Assertions and steps that do not look at, or touch, anything but the terminal.\<close>

definition io_stable :: "(world \<Rightarrow> bool) \<Rightarrow> bool" where
  "io_stable Q = (\<forall>w i pr. Q w \<longrightarrow> Q (w\<lparr>stdin := i, printed := pr\<rparr>))"

definition io_only :: "world \<Rightarrow> world \<Rightarrow> bool" where
  "io_only w w' = (config w' = config w \<and> logged w' = logged w \<and> files w' = files w \<and>
                   dirs w' = dirs w \<and> history w' = history w)"

text \<open>The keys of a dictionary; a value that is no dictionary has none.\<close>

fun keys :: "pyval \<Rightarrow> string set" where
  "keys (VDict kvs) = set (map fst kvs)"
| "keys v = {}"

fun is_dict :: "pyval \<Rightarrow> bool" where
  "is_dict (VDict kvs) = True"
| "is_dict v = False"






text \<open>
  Assertions on the sub-records: which of the three component tags are keys of the
  configuration, what stands under \<open>components\<close>, and whether a tag is in that list.
\<close>

definition tags :: "string set" where
  "tags = {''orchestrator'', ''agw'', ''fgw''}"

definition anyhow :: "exn \<Rightarrow> world \<Rightarrow> bool" where
  "anyhow ex w = True"

definition tagged :: "string set \<Rightarrow> world \<Rightarrow> bool" where
  "tagged K w = (keys (config w) \<inter> tags = K)"

definition holds :: "string set \<Rightarrow> exn + pyval \<Rightarrow> world \<Rightarrow> bool" where
  "holds K r w = (tagged K w \<and> getitem (config w) ''components'' = r)"

definition chosen :: "exn + pyval \<Rightarrow> string \<Rightarrow> bool" where
  "chosen r k = (case r of Inl ex \<Rightarrow> False | Inr v \<Rightarrow> contains v k = Inr True)"

definition follows :: "string set \<Rightarrow> world \<Rightarrow> bool" where
  "follows K w =
     (\<forall>k \<in> tags. k \<in> keys (config w) \<longleftrightarrow> chosen (getitem (config w) ''components'') k \<or> k \<in> K)"

definition survives :: "(world \<Rightarrow> bool) \<Rightarrow> string \<Rightarrow> bool" where
  "survives Q k =
     (\<forall>w p x c'. Q w \<and> p \<noteq> [] \<and> hd p = k \<and> set_path (config w) p x = Inr c' \<longrightarrow>
        Q (w\<lparr>config := c'\<rparr>))"

text \<open>
  The fields a template reads by subscript, whether a path leads to a value, templates
  whose paths have one key or two, configurations whose component sub-records are
  dictionaries, the script of a component, and statements that write no file.
\<close>

fun needs :: "piece \<Rightarrow> string list list" where
  "needs (Text s) = []"
| "needs (Field p) = [p]"
| "needs (FieldOr p k d) = [p]"

definition required :: "piece list list \<Rightarrow> string list list" where
  "required template = concat (map needs (concat template))"

definition present :: "pyval \<Rightarrow> string list \<Rightarrow> bool" where
  "present cfg p = (case get_path cfg p of Inl ex \<Rightarrow> False | Inr v \<Rightarrow> True)"

fun shallow :: "piece \<Rightarrow> bool" where
  "shallow (Text s) = True"
| "shallow (Field p) = (length p = 1 \<or> length p = 2 \<and> hd p \<in> tags)"
| "shallow (FieldOr p k d) = (length p = 1 \<and> hd p \<in> tags)"

definition records :: "pyval \<Rightarrow> bool" where
  "records cfg = (is_dict cfg \<and> (\<forall>k \<in> tags. case getitem cfg k of Inl ex \<Rightarrow> True | Inr v \<Rightarrow> is_dict v))"

definition script_of :: "env \<Rightarrow> string \<Rightarrow> string" where
  "script_of e component = scripts_dir e @ ''/deploy_'' @ component @ ''.sh''"

definition files_kept :: "'a prog \<Rightarrow> bool" where
  "files_kept m = (\<forall>w r w'. m w = (r, w') \<longrightarrow> files w' = files w)"

definition deployable :: "string set" where
  "deployable = {''orchestrator'', ''agw'', ''fgw'', ''nms''}"
section \<open>Properties of the input and validation layer\<close>

lemmas char_eval = char_of_def bit_Suc_0_iff

lemmas text_eval = lower_def lower_char_def strip_def is_space_def char_eval

lemmas run_defs = andthen_def ret_def raise_def lift_def print_def sys_exit_def try_except_def

subsection \<open>The email validator\<close>

lemma str_in_char: "str_in [c] s \<longleftrightarrow> c \<in> set s"
  by (induction s) (auto elim: startswith.elims)

lemma split_no_sep: "sep \<notin> set s \<Longrightarrow> split s sep = [s]"
  by (induction s) auto

lemma split_nonempty: "split s sep \<noteq> []"
  by (induction s) (auto split: list.splits)

lemma split_tail: "sep \<notin> set d \<Longrightarrow> \<exists>ps. split (d @ sep # t) sep = d # ps"
  by (induction d) (auto split: list.splits)

lemma split_first:
  assumes "sep \<notin> set u"
  shows "split (u @ sep # rest) sep = u # split rest sep"
  using assms by (induction u) (auto split: list.splits simp: split_nonempty)

lemma split_second:
  assumes "sep \<notin> set u" "sep \<notin> set d" "r = [] \<or> (\<exists>t. r = sep # t)"
  shows "split (u @ sep # d @ r) sep ! Suc 0 = d"
proof -
  have "\<exists>ps. split (d @ r) sep = d # ps"
    using assms(2,3) split_tail [of sep d] by (auto simp: split_no_sep)
  then show ?thesis
    using assms(1) by (auto simp: split_first)
qed

text \<open>
  C2, as the code has it. A string without \<open>@\<close> is refused. Otherwise the validator looks
  at the text between the first \<open>@\<close> and the next one (or the end of the string), not at
  the text after the last \<open>@\<close>: the string is accepted exactly when that segment holds
  a dot. In particular a string of the shape \<open>user@domain.tld\<close>, with one \<open>@\<close> and a dot
  after it, is accepted (the case \<open>r = []\<close>).
\<close>

theorem validate_email_segment:
  "(CHR ''@'' \<notin> set s \<longrightarrow> \<not> validate_email s) \<and>
   (s = u @ ''@'' @ d @ r \<and> CHR ''@'' \<notin> set u \<and> CHR ''@'' \<notin> set d \<and>
      (r = [] \<or> (\<exists>t. r = CHR ''@'' # t))
    \<longrightarrow> validate_email s = (CHR ''.'' \<in> set d))"
proof -
  have one: "CHR ''@'' \<notin> set s \<Longrightarrow> \<not> validate_email s"
    by (simp add: validate_email_def str_in_char)
  have two: "validate_email (u @ CHR ''@'' # d @ r) = (CHR ''.'' \<in> set d)"
    if "CHR ''@'' \<notin> set u" "CHR ''@'' \<notin> set d" "r = [] \<or> (\<exists>t. r = CHR ''@'' # t)"
    using split_second [OF that] by (simp add: validate_email_def str_in_char)
  from one two show ?thesis by auto
qed

theorem validate_email_segment_witness:
  "\<not> validate_email ''nobody.example.org'' \<and> validate_email ''ops@example.org'' \<and>
   \<not> validate_email ''a@b@c.d''"
  using validate_email_segment [of "''nobody.example.org''"]
    validate_email_segment [of "''ops@example.org''" "''ops''" "''example.org''" "[]"]
    validate_email_segment [of "''a@b@c.d''" "''a''" "''b''" "''@c.d''"]
  by simp

text \<open>
  C2 as stated fails: in \<open>a@b.c@d\<close> the text after the last \<open>@\<close> is \<open>d\<close>, which holds
  no dot, and the validator accepts the string.
\<close>

theorem validate_email_last_at_counterexample:
  "validate_email ''a@b.c@d'' \<and> ''a@b.c@d'' = ''a@b.c'' @ ''@'' @ ''d'' \<and>
   CHR ''@'' \<notin> set ''d'' \<and> CHR ''.'' \<notin> set ''d''"
  by (simp add: validate_email_def)

subsection \<open>Confirmation prompts\<close>

lemma confirm_action_line:
  assumes "stdin w = Line s # rest"
  shows "confirm_action m w =
     (let w1 = w\<lparr>stdin := rest, printed := printed w @ [m @ '' [y/N]: '']\<rparr>;
          response = strip (lower s)
      in if response \<in> {''y'', ''yes''} then (Inr True, w1)
         else if response \<in> {''n'', ''no'', ''''} then (Inr False, w1)
         else confirm_action m (w1\<lparr>printed := printed w1 @ [please @ newline]\<rparr>))"
  using assms by (subst confirm_action.simps) (simp add: input_def print_def Let_def please_def)

text \<open>
  C8, as the code has it. The answer is lower-cased and stripped of surrounding white space
  before it is compared: \<open>y\<close> and \<open>yes\<close> give true, \<open>n\<close>, \<open>no\<close> and the empty text give
  false (so the spellings \<open>y\<close>, \<open>Y\<close>, \<open>yes\<close>, \<open>YES\<close> give true and the empty string, \<open>n\<close>
  and \<open>no\<close> give false), and every other answer prints the complaint and asks again on the
  rest of the input.
\<close>

theorem confirm_action_answers:
  "stdin w = Line s # rest \<Longrightarrow>
   w1 = w\<lparr>stdin := rest, printed := printed w @ [m @ '' [y/N]: '']\<rparr> \<Longrightarrow>
   (s \<in> {''y'', ''Y'', ''yes'', ''YES''} \<longrightarrow> confirm_action m w = (Inr True, w1)) \<and>
   (s \<in> {'''', ''n'', ''no''} \<longrightarrow> confirm_action m w = (Inr False, w1)) \<and>
   (strip (lower s) \<in> {''y'', ''yes''} \<longrightarrow> confirm_action m w = (Inr True, w1)) \<and>
   (strip (lower s) \<in> {''n'', ''no'', ''''} \<longrightarrow> confirm_action m w = (Inr False, w1)) \<and>
   (strip (lower s) \<notin> {''y'', ''yes'', ''n'', ''no'', ''''} \<longrightarrow>
      confirm_action m w =
      confirm_action m (w1\<lparr>printed := printed w1 @ [please @ newline]\<rparr>))"
proof -
  assume line: "stdin w = Line s # rest"
    and w1: "w1 = w\<lparr>stdin := rest, printed := printed w @ [m @ '' [y/N]: '']\<rparr>"
  have yes: "s \<in> {''y'', ''Y'', ''yes'', ''YES''} \<Longrightarrow> strip (lower s) \<in> {''y'', ''yes''}"
    by (auto simp: text_eval)
  have no: "s \<in> {'''', ''n'', ''no''} \<Longrightarrow> strip (lower s) \<in> {''n'', ''no'', ''''}"
    by (auto simp: text_eval)
  have general:
    "(strip (lower s) \<in> {''y'', ''yes''} \<longrightarrow> confirm_action m w = (Inr True, w1)) \<and>
     (strip (lower s) \<in> {''n'', ''no'', ''''} \<longrightarrow> confirm_action m w = (Inr False, w1)) \<and>
     (strip (lower s) \<notin> {''y'', ''yes'', ''n'', ''no'', ''''} \<longrightarrow>
        confirm_action m w =
        confirm_action m (w1\<lparr>printed := printed w1 @ [please @ newline]\<rparr>))"
    unfolding w1 confirm_action_line [OF line] Let_def by auto
  from yes no general show ?thesis by blast
qed

theorem confirm_action_answers_witness:
  "confirm_action ''Go?'' (world0\<lparr>stdin := [Line ''YES'']\<rparr>)
     = (Inr True, world0\<lparr>printed := [''Go? [y/N]: '']\<rparr>) \<and>
   confirm_action ''Go?'' (world0\<lparr>stdin := [Line ''no'']\<rparr>)
     = (Inr False, world0\<lparr>printed := [''Go? [y/N]: '']\<rparr>) \<and>
   confirm_action ''Go?'' (world0\<lparr>stdin := [Line ''maybe'', Line '' Yes '']\<rparr>)
     = (Inr True, world0\<lparr>printed := [''Go? [y/N]: '', please @ newline, ''Go? [y/N]: '']\<rparr>)"
  using confirm_action_answers [of "world0\<lparr>stdin := [Line ''YES'']\<rparr>" "''YES''" "[]" _ "''Go?''", OF _ refl]
    confirm_action_answers [of "world0\<lparr>stdin := [Line ''no'']\<rparr>" "''no''" "[]" _ "''Go?''", OF _ refl]
    confirm_action_answers [of "world0\<lparr>stdin := [Line ''maybe'', Line '' Yes '']\<rparr>" "''maybe''" "[Line '' Yes '']" _ "''Go?''", OF _ refl]
    confirm_action_answers [of "world0\<lparr>stdin := [Line '' Yes ''],
        printed := [''Go? [y/N]: '', please @ newline]\<rparr>" "'' Yes ''" "[]" _ "''Go?''", OF _ refl]
  by (simp add: world0_def text_eval)

text \<open>
  C8 as stated fails: \<open>N\<close> is none of the seven listed answers, and the prompt returns
  false on it without asking again.
\<close>

theorem confirm_action_capital_n_counterexample:
  "''N'' \<notin> {''y'', ''Y'', ''yes'', ''YES'', '''', ''n'', ''no''} \<and>
   confirm_action ''Go?'' (world0\<lparr>stdin := [Line ''N'']\<rparr>)
     = (Inr False, world0\<lparr>printed := [''Go? [y/N]: '']\<rparr>)"
  by (simp add: confirm_action_line world0_def Let_def text_eval)

text \<open>Answers that are neither yes nor no are skipped one by one.\<close>

lemma confirm_action_after_junk:
  assumes "\<forall>j \<in> set junk. strip (lower j) \<notin> {''y'', ''yes'', ''n'', ''no'', ''''}"
    and "stdin w = map Line junk @ Line d # rest"
  shows "confirm_action m w =
         confirm_action m (w\<lparr>stdin := Line d # rest, printed := printed w @ retries m junk\<rparr>)"
  using assms
proof (induction junk arbitrary: w)
  case Nil
  then have "w\<lparr>stdin := Line d # rest\<rparr> = w"
    by (cases w) simp
  then show ?case by (simp add: retries_def)
next
  case (Cons j junk)
  let ?w = "w\<lparr>stdin := map Line junk @ Line d # rest,
              printed := printed w @ [m @ '' [y/N]: '', please @ newline]\<rparr>"
  have "confirm_action m w = confirm_action m ?w"
    using Cons.prems by (simp add: confirm_action_line [where rest = "map Line junk @ Line d # rest"] Let_def)
  also have "\<dots> = confirm_action m (?w\<lparr>stdin := Line d # rest, printed := printed ?w @ retries m junk\<rparr>)"
    using Cons.prems by (intro Cons.IH) auto
  finally show ?case by (simp add: retries_def)
qed

lemma confirm_action_declined:
  assumes "\<forall>j \<in> set junk. strip (lower j) \<notin> {''y'', ''yes'', ''n'', ''no'', ''''}"
    and "stdin w = map Line junk @ Line d # rest"
    and "strip (lower d) \<in> {''n'', ''no'', ''''}"
  shows "confirm_action m w =
         (Inr False, w\<lparr>stdin := rest, printed := printed w @ retries m junk @ [m @ '' [y/N]: '']\<rparr>)"
proof -
  have "strip (lower d) \<notin> {''y'', ''yes''}"
    using assms(3) by auto
  then show ?thesis
    unfolding confirm_action_after_junk [OF assms(1,2)]
    using assms(3) by (simp add: confirm_action_line [where rest = rest] Let_def)
qed

lemma welcome_message_declined:
  assumes "\<forall>j \<in> set junk. strip (lower j) \<notin> {''y'', ''yes'', ''n'', ''no'', ''''}"
    and "stdin w = map Line junk @ Line d # rest"
    and "strip (lower d) \<in> {''n'', ''no'', ''''}"
  shows "fst (welcome_message w) = Inl (SystemExit 0)"
    and "files (snd (welcome_message w)) = files w"
    and "history (snd (welcome_message w)) = history w"
    and "config (snd (welcome_message w)) = config w"
  using assms
  by (simp_all add: welcome_message_def run_defs
      confirm_action_declined [where junk = junk and d = d and rest = rest]
      cong: if_weak_cong)

section \<open>Properties of the run\<close>

lemma parse_args_parsed: "argparse e argv = Parsed a \<Longrightarrow> andthen (parse_args e argv) f = f a"
  by (simp add: andthen_def parse_args_def fun_eq_iff)

text \<open>
  C5. The two flags \<^verbatim>\<open>--skip-prerequisites\<close> and \<^verbatim>\<open>--dry-run\<close> are parsed and never read:
  two command lines that parse to the same \<^verbatim>\<open>--config\<close> value and differ only in what
  they say about the two flags give the same run, as a function of the world the run starts
  in. (Nothing after \<^verbatim>\<open>parse_args\<close> looks at the two fields: the run after the parse is
  the same function for every value of them.)
\<close>

theorem flags_are_ignored:
  assumes "argparse e argv = Parsed a"
    and "argparse e argv' = Parsed (a\<lparr>skip_prerequisites := s, dry_run := d\<rparr>)"
  shows "main e argv' = main e argv"
  using assms by (simp add: main_def parse_args_parsed load_step_def)

theorem flags_are_ignored_witness:
  "main sample_env [''--skip-prerequisites'', ''--dry-run''] = main sample_env []"
  using flags_are_ignored [of sample_env "[]" plain "[''--skip-prerequisites'', ''--dry-run'']"
      True True]
  by (simp add: sample_env_def plain_def)

section \<open>What a statement can raise\<close>

lemma raises_onlyD: "raises_only E m \<Longrightarrow> m w = (Inl ex, w') \<Longrightarrow> E ex"
  by (auto simp: raises_only_def)


lemma ro_ret: "raises_only E (ret x)"
  by (simp add: raises_only_def ret_def)

lemma ro_raise: "E ex \<Longrightarrow> raises_only E (raise ex)"
  by (simp add: raises_only_def raise_def)


lemma ro_print: "raises_only E (print s)"
  by (simp add: raises_only_def print_def)

lemma ro_logger_info: "raises_only E (logger_info s)"
  by (simp add: raises_only_def logger_info_def)

lemma ro_logger_error: "raises_only E (logger_error s)"
  by (simp add: raises_only_def logger_error_def)

lemma ro_write_file: "raises_only E (write_file p c)"
  by (simp add: raises_only_def write_file_def)

lemma ro_andthen:
  "raises_only E m \<Longrightarrow> (\<And>x. raises_only E (f x)) \<Longrightarrow> raises_only E (andthen m f)"
  by (auto simp: raises_only_def andthen_def split: prod.splits sum.splits)

lemma ro_steps_Nil: "raises_only E (steps [])"
  by (simp add: ro_ret)

lemma ro_steps_Cons: "raises_only E m \<Longrightarrow> raises_only E (steps ms) \<Longrightarrow> raises_only E (steps (m # ms))"
  by (simp add: ro_andthen)

lemma ro_if: "raises_only E m \<Longrightarrow> raises_only E n \<Longrightarrow> raises_only E (if b then m else n)"
  by simp

lemma ro_try:
  "raises_only E body \<Longrightarrow> (\<And>ex. caught ex \<Longrightarrow> raises_only E (handler ex)) \<Longrightarrow>
   raises_only E (try_except body caught handler)"
  by (auto simp: raises_only_def try_except_def split: prod.splits sum.splits if_splits)

lemma ro_input: "raises_only catchable (input p)"
  by (auto simp: raises_only_def input_def catchable_def Let_def split: list.splits event.splits)

lemma ro_getpass: "raises_only catchable (getpass p)"
  by (auto simp: raises_only_def getpass_def catchable_def split: list.splits event.splits)

lemma ro_confirm_action: "raises_only catchable (confirm_action m)"
proof -
  have "confirm_action m w = (Inl ex, w') \<Longrightarrow> catchable ex" for w ex w'
  proof (induction m w rule: confirm_action.induct)
    case (1 message w)
    show ?case
    proof (cases "input (message @ '' [y/N]: '') w")
      case (Pair r w1)
      show ?thesis
      proof (cases r)
        case (Inl ex')
        with Pair "1.prems" have "ex' = ex"
          by (subst (asm) confirm_action.simps) simp
        with Pair Inl raises_onlyD [OF ro_input] show ?thesis by blast
      next
        case (Inr line)
        show ?thesis
        proof (cases "strip (lower line) \<in> {''y'', ''yes'', ''n'', ''no'', ''''}")
          case True
          with Pair Inr "1.prems" show ?thesis
            by (subst (asm) confirm_action.simps) (auto simp: Let_def split: if_splits)
        next
          case False
          obtain u w2 where pr: "print (''Please enter '' @ quote @ ''y'' @ quote @ '' for yes or ''
                                 @ quote @ ''n'' @ quote @ '' for no.'') w1 = (u, w2)"
            by (simp add: print_def)
          from Pair Inr False pr "1.prems" have "confirm_action message w2 = (Inl ex, w')"
            by (subst (asm) confirm_action.simps) (simp add: Let_def)
          with "1.IH" [OF Pair [symmetric] Inr refl _ _ pr [symmetric]] False show ?thesis
            by auto
        qed
      qed
    qed
  qed
  then show ?thesis by (auto simp: raises_only_def)
qed

lemma ro_get_user_input: "raises_only catchable (get_user_input p d r)"
proof -
  have "get_user_input p d r w = (Inl ex, w') \<Longrightarrow> catchable ex" for w ex w'
  proof (induction p d r w rule: get_user_input.induct)
    case (1 prompt dflt required w)
    show ?case
    proof (cases "input (full_prompt prompt dflt) w")
      case (Pair res w1)
      show ?thesis
      proof (cases res)
        case (Inl ex')
        with Pair "1.prems" have "ex' = ex"
          by (subst (asm) get_user_input.simps) simp
        with Pair Inl raises_onlyD [OF ro_input] show ?thesis by blast
      next
        case (Inr line)
        show ?thesis
        proof (cases "strip line \<noteq> [] \<or> truthy dflt \<or> \<not> required")
          case True
          with Pair Inr "1.prems" show ?thesis
            by (subst (asm) get_user_input.simps) (auto simp: Let_def split: if_splits)
        next
          case False
          obtain u w2 where pr: "print ''This field is required. Please enter a value.'' w1 = (u, w2)"
            by (simp add: print_def)
          from Pair Inr False pr "1.prems" have "get_user_input prompt dflt required w2 = (Inl ex, w')"
            by (subst (asm) get_user_input.simps) (simp add: Let_def)
          with "1.IH" [OF Pair [symmetric] Inr refl _ _ _ pr [symmetric]] False show ?thesis
            by auto
        qed
      qed
    qed
  qed
  then show ?thesis by (auto simp: raises_only_def)
qed


lemma catchable_simps [simp]:
  "catchable (KeyError k)" "catchable (TypeError m)" "catchable (AttributeError m)"
  "catchable EOFError" "catchable KeyboardInterrupt" "catchable (CalledProcessError c rc err)"
  "catchable (OSError m)" "catchable (FileNotFoundError p)" "catchable (YAMLError m)"
  "\<not> catchable (SystemExit n)"
  by (simp_all add: catchable_def)

lemma getitem_catchable: "getitem v k = Inl ex \<Longrightarrow> catchable ex"
  by (cases v) (auto split: option.splits)

lemma setitem_catchable: "setitem v k x = Inl ex \<Longrightarrow> catchable ex"
  by (cases v) auto

lemma contains_catchable: "contains v k = Inl ex \<Longrightarrow> catchable ex"
  by (cases v) auto

lemma iterate_catchable: "iterate v = Inl ex \<Longrightarrow> catchable ex"
  by (cases v) auto

lemma get_default_catchable: "get_default v k d = Inl ex \<Longrightarrow> catchable ex"
  by (cases v) auto

lemma upper_of_catchable: "upper_of v = Inl ex \<Longrightarrow> catchable ex"
  by (cases v) auto

lemma the_str_catchable: "the_str v = Inl ex \<Longrightarrow> catchable ex"
  by (cases v) auto

lemma get_path_catchable: "get_path v p = Inl ex \<Longrightarrow> catchable ex"
  by (induction p arbitrary: v) (auto split: sum.splits dest: getitem_catchable)

lemma set_path_catchable: "set_path v p x = Inl ex \<Longrightarrow> catchable ex"
  by (induction v p x rule: set_path.induct)
     (auto split: sum.splits dest: getitem_catchable setitem_catchable)

lemma render_piece_catchable: "render_piece cfg pc = Inl ex \<Longrightarrow> catchable ex"
  by (cases pc) (auto split: sum.splits dest: get_path_catchable get_default_catchable)

lemma render_catchable: "render cfg ps = Inl ex \<Longrightarrow> catchable ex"
  by (induction ps) (auto split: sum.splits dest: render_piece_catchable)

lemma ro_lift: "(\<And>ex. r = Inl ex \<Longrightarrow> E ex) \<Longrightarrow> raises_only E (lift r)"
  by (auto simp: raises_only_def lift_def)

lemma ro_config_get: "raises_only catchable (config_get p)"
  by (auto simp: raises_only_def config_get_def dest: get_path_catchable)

lemma ro_config_set: "raises_only catchable (config_set p x)"
  by (auto simp: raises_only_def config_set_def split: sum.splits dest: set_path_catchable)

lemma ro_config_append: "raises_only catchable (config_append p x)"
  unfolding config_append_def
  by (intro ro_andthen ro_config_get) (auto split: pyval.splits intro: ro_raise ro_config_set)

lemma ro_config_contains: "raises_only catchable (config_contains k p)"
  unfolding config_contains_def
  by (intro ro_andthen ro_config_get ro_lift) (auto dest: contains_catchable)

lemma ro_config_str: "raises_only catchable (config_str p)"
  unfolding config_str_def
  by (intro ro_andthen ro_config_get ro_lift) (auto dest: the_str_catchable)

lemma ro_ask: "raises_only catchable (ask p prompt d r)"
  unfolding ask_def by (intro ro_andthen ro_get_user_input ro_config_set)

lemma ro_fstring: "raises_only catchable (fstring ps)"
  by (auto simp: raises_only_def fstring_def dest: render_catchable)

lemma ro_generate_script: "raises_only catchable (generate_script t p)"
  by (auto simp: raises_only_def generate_script_def render_lines_def write_file_def
      split: sum.splits dest: render_catchable)

lemma ro_save_config: "raises_only E (save_config e)"
  by (simp add: raises_only_def save_config_def write_file_def)

lemma ro_subprocess_run: "raises_only catchable (subprocess_run e c chk)"
  by (auto simp: raises_only_def subprocess_run_def Let_def split: outcome.splits if_splits)

lemma ro_case_option:
  "raises_only E a \<Longrightarrow> (\<And>x. raises_only E (b x)) \<Longrightarrow>
   raises_only E (case opt of None \<Rightarrow> a | Some x \<Rightarrow> b x)"
  by (cases opt) auto

lemmas ro_intros =
  ro_ret ro_print ro_logger_info ro_logger_error ro_write_file ro_andthen ro_steps_Nil
  ro_steps_Cons ro_if ro_try ro_case_option ro_input ro_getpass ro_confirm_action
  ro_get_user_input ro_config_get ro_config_set ro_config_append ro_config_contains
  ro_config_str ro_ask ro_fstring ro_generate_script ro_save_config ro_subprocess_run

lemma ro_while_invalid: "raises_only catchable (while_invalid valid path complaint prompt)"
proof -
  have "while_invalid valid path complaint prompt w = (Inl ex, w') \<Longrightarrow> catchable ex" for w ex w'
  proof (induction valid path complaint prompt w rule: while_invalid.induct)
    case (1 valid path complaint prompt w)
    show ?case
    proof (cases "config_str path w")
      case (Pair res w1)
      show ?thesis
      proof (cases res)
        case (Inl ex')
        with Pair "1.prems" have "ex' = ex"
          by (subst (asm) while_invalid.simps) simp
        with Pair Inl raises_onlyD [OF ro_config_str] show ?thesis by blast
      next
        case (Inr s)
        show ?thesis
        proof (cases "valid s")
          case True
          with Pair Inr "1.prems" show ?thesis
            by (subst (asm) while_invalid.simps) simp
        next
          case False
          show ?thesis
          proof (cases "andthen (print complaint) (\<lambda>_. ask path prompt None True) w1")
            case again: (Pair res2 w2)
            show ?thesis
            proof (cases res2)
              case (Inl ex')
              with Pair Inr False again "1.prems" have "ex' = ex"
                by (subst (asm) while_invalid.simps) simp
              moreover have "raises_only catchable (andthen (print complaint) (\<lambda>_. ask path prompt None True))"
                by (intro ro_intros)
              ultimately show ?thesis
                using again Inl raises_onlyD by blast
            next
              case inner: (Inr u)
              with Pair Inr False again "1.prems"
              have "while_invalid valid path complaint prompt w2 = (Inl ex, w')"
                by (subst (asm) while_invalid.simps) simp
              with "1.IH" [OF Pair [symmetric] Inr False again [symmetric] inner] show ?thesis
                by simp
            qed
          qed
        qed
      qed
    qed
  qed
  then show ?thesis by (auto simp: raises_only_def)
qed

lemma ro_run_command: "raises_only catchable (run_command e c chk)"
  unfolding run_command_def
  by (intro ro_intros ro_raise) (auto elim: is_CalledProcessError.elims)

lemma ro_run_all: "raises_only catchable (run_all e cs)"
  by (induction cs) (auto intro!: ro_intros ro_run_command)

lemma ro_custom_selection: "raises_only catchable (custom_selection cs)"
  by (induction cs) (auto intro!: ro_intros)

lemma ro_select_components: "raises_only catchable (select_components choice)"
  unfolding select_components_def by (intro ro_intros ro_custom_selection)

lemma ro_collect_orchestrator_config: "raises_only catchable collect_orchestrator_config"
  unfolding collect_orchestrator_config_def get_password_def by (intro ro_intros)

lemma ro_collect_agw_config: "raises_only catchable (collect_agw_config e)"
  unfolding collect_agw_config_def by (intro ro_intros ro_while_invalid)

lemma ro_collect_fgw_config: "raises_only catchable collect_fgw_config"
  unfolding collect_fgw_config_def by (intro ro_intros)

lemma ro_collect_deployment_config: "raises_only catchable (collect_deployment_config e)"
  unfolding collect_deployment_config_def deployment_type_selection_def
    general_configuration_def network_configuration_def component_configuration_def
    save_configuration_def
  by (intro ro_intros ro_while_invalid ro_select_components ro_collect_orchestrator_config
      ro_collect_agw_config ro_collect_fgw_config)

lemma ro_install_one: "raises_only catchable (install_one e pm dep)"
  unfolding install_one_def install_docker_def install_docker_compose_def install_kubectl_def
    install_helm_def
  by (intro ro_intros ro_run_all ro_run_command)

lemma ro_install_each: "raises_only catchable (install_each e pm deps)"
  by (induction deps) (auto intro!: ro_intros ro_install_one)

lemma ro_detect_os: "raises_only catchable (detect_os e)"
  unfolding detect_os_def Let_def by (intro ro_intros ro_run_command)

lemma ro_install_prerequisites: "raises_only catchable (install_prerequisites e deps)"
  unfolding install_prerequisites_def by (intro ro_intros ro_detect_os ro_install_each)

lemma ro_probe: "raises_only catchable (probe e cmd description)"
  unfolding probe_def by (intro ro_intros ro_run_command)

lemma ro_probe_each: "raises_only catchable (probe_each e ps missing)"
  by (induction ps arbitrary: missing) (auto intro!: ro_intros ro_probe)

lemma ro_check_prerequisites: "raises_only catchable (check_prerequisites e)"
  unfolding check_prerequisites_def
  by (intro ro_intros ro_probe_each ro_install_prerequisites)

lemma ro_deploy_component: "raises_only catchable (deploy_component e c)"
  unfolding deploy_component_def deploy_orchestrator_def deploy_agw_def deploy_fgw_def
    deploy_nms_def Let_def generate_orchestrator_script_def generate_agw_script_def
    generate_fgw_script_def generate_nms_script_def
  by (intro ro_intros ro_run_command ro_lift) (auto dest: upper_of_catchable)

lemma ro_deploy_each: "raises_only catchable (deploy_each e cs)"
  by (induction cs) (auto intro!: ro_intros ro_deploy_component)

lemma ro_display_deployment_summary: "raises_only catchable (display_deployment_summary e)"
  unfolding display_deployment_summary_def by (intro ro_intros)

lemma ro_deploy_components: "raises_only catchable (deploy_components e)"
  unfolding deploy_components_def
  by (intro ro_intros ro_deploy_each ro_display_deployment_summary ro_lift)
     (auto dest: iterate_catchable)

section \<open>Exit codes\<close>

lemma andthen_Inr: "m w = (Inr x, w1) \<Longrightarrow> andthen m f w = f x w1"
  by (simp add: andthen_def)

lemma andthen_Inl: "m w = (Inl ex, w1) \<Longrightarrow> andthen m f w = (Inl ex, w1)"
  by (simp add: andthen_def)

lemma andthen_Inr_iff:
  "andthen m f w = (Inr y, w') \<longleftrightarrow> (\<exists>x w1. m w = (Inr x, w1) \<and> f x w1 = (Inr y, w'))"
  by (auto simp: andthen_def split: prod.splits sum.splits)

lemma andthen_Inl_iff:
  "andthen m f w = (Inl ex, w') \<longleftrightarrow>
     (m w = (Inl ex, w') \<or> (\<exists>x w1. m w = (Inr x, w1) \<and> f x w1 = (Inl ex, w')))"
  by (auto simp: andthen_def split: prod.splits sum.splits)

lemma main_parsed:
  assumes "argparse e argv = Parsed a"
  shows "main e argv = andthen (init e) (\<lambda>_. andthen (load_step e a) (\<lambda>_.
     andthen (run_deployment e) (\<lambda>succeeded.
         if succeeded
         then andthen (print (newline @ mark_party @ '' Deployment completed successfully!'')) (\<lambda>_.
              sys_exit 0)
         else andthen (print (newline @ mark_fail @ '' Deployment failed!'')) (\<lambda>_.
              sys_exit 1))))"
  by (simp add: main_def parse_args_parsed [OF assms] andthen_def ret_def fun_eq_iff
      split: prod.splits sum.splits)



lemma run_deployment_workflow:
  "run_deployment e =
     try_except
       (try_except (workflow e)
          (\<lambda>ex. ex = KeyboardInterrupt)
          (\<lambda>ex. andthen (print (newline @ newline @ mark_warning @ ''  Deployment interrupted by user.''))
                  (\<lambda>_. ret False)))
       is_Exception
       (\<lambda>ex. andthen (logger_error (''Deployment failed: '' @ exn_text ex)) (\<lambda>_.
             andthen (print (newline @ mark_fail @ '' Deployment failed: '' @ exn_text ex)) (\<lambda>_.
             ret False)))"
  by (simp add: run_deployment_def)


lemma run_deployment_exited:
  "workflow e w = (Inl (SystemExit n), w') \<Longrightarrow> run_deployment e w = (Inl (SystemExit n), w')"
  by (simp add: run_deployment_workflow try_except_def)




lemma workflow_exit:
  "workflow e w = (Inl (SystemExit n), w') \<longleftrightarrow> welcome_message w = (Inl (SystemExit n), w')"
proof
  assume "welcome_message w = (Inl (SystemExit n), w')"
  then show "workflow e w = (Inl (SystemExit n), w')"
    by (simp add: workflow_def andthen_Inl)
next
  assume a: "workflow e w = (Inl (SystemExit n), w')"
  have rest: "raises_only catchable
           (andthen (check_prerequisites e) (\<lambda>ready.
             if \<not> ready then ret False
             else
               andthen (collect_deployment_config e) (\<lambda>_.
               andthen (confirm_action ''Do you want to proceed with the deployment?'') (\<lambda>go.
                 if go then andthen (deploy_components e) (\<lambda>_. ret True)
                 else andthen (print ''Deployment cancelled by user.'') (\<lambda>_. ret False)))))"
    by (intro ro_intros ro_check_prerequisites ro_collect_deployment_config ro_deploy_components)
  from a show "welcome_message w = (Inl (SystemExit n), w')"
    unfolding workflow_def andthen_Inl_iff [of welcome_message]
    using raises_onlyD [OF rest] by fastforce
qed







lemma run_deployment_exit:
  assumes "welcome_message w = (Inl (SystemExit n), w2)"
  shows "run_deployment e w = (Inl (SystemExit n), w2)"
  using assms by (simp add: run_deployment_exited workflow_exit)

lemma load_step_loaded:
  assumes "truthy (config_arg a) \<longrightarrow>
           (\<exists>content v. files w (text_of (config_arg a)) = Some content \<and>
              safe_load e content = Document v)"
  shows "\<exists>w1. load_step e a w = (Inr (), w1) \<and> stdin w1 = stdin w \<and> files w1 = files w \<and>
              history w1 = history w"
  using assms by (cases "truthy (config_arg a)") (auto simp: load_step_def run_defs load_config_def)

lemma main_declined:
  assumes "argparse e argv = Parsed a"
    and "\<forall>j \<in> set junk. strip (lower j) \<notin> {''y'', ''yes'', ''n'', ''no'', ''''}"
    and "stdin w = map Line junk @ Line d # rest"
    and "strip (lower d) \<in> {''n'', ''no'', ''''}"
    and "truthy (config_arg a) \<longrightarrow>
           (\<exists>content v. files w (text_of (config_arg a)) = Some content \<and>
              safe_load e content = Document v)"
  shows "fst (main e argv w) = Inl (SystemExit 0) \<and>
         files (snd (main e argv w)) = files w \<and>
         history (snd (main e argv w)) = history w"
proof -
  obtain w0 where i: "init e w = (Inr (), w0)"
    and same0: "stdin w0 = stdin w" "files w0 = files w" "history w0 = history w"
    by (simp add: init_def)
  obtain w1 where l: "load_step e a w0 = (Inr (), w1)"
    and same: "stdin w1 = stdin w" "files w1 = files w" "history w1 = history w"
    using load_step_loaded [of a w0 e] assms(5) same0 by auto
  have d: "fst (welcome_message w1) = Inl (SystemExit 0)"
    "files (snd (welcome_message w1)) = files w1" "history (snd (welcome_message w1)) = history w1"
    using welcome_message_declined [OF assms(2) _ assms(4), of w1 rest] assms(3) same(1)
    by simp_all
  obtain w2 where w2: "welcome_message w1 = (Inl (SystemExit 0), w2)"
    using d(1) by (cases "welcome_message w1") simp
  have "main e argv w = (Inl (SystemExit 0), w2)"
    unfolding main_parsed [OF assms(1)]
    by (simp add: andthen_Inr [of "init e" w, OF i] andthen_Inr [of "load_step e a" _, OF l]
        andthen_Inl [of "run_deployment e" w1, OF run_deployment_exit [OF w2]])
  with same d w2 show ?thesis by simp
qed

text \<open>
  C6. A run in which the operator declines the initial continue-prompt (after any number
  of answers that are neither yes nor no) exits with code 0, and it has written no file at
  all, hence no configuration file and no script, and has run no command. Such a run has
  a command line that parsed, and no \<^verbatim>\<open>--config\<close> file or one that loaded: otherwise the
  prompt is never reached.
\<close>

theorem decline_exits_zero:
  assumes "argparse e argv = Parsed a"
    and "\<forall>j \<in> set junk. strip (lower j) \<notin> {''y'', ''yes'', ''n'', ''no'', ''''}"
    and "stdin w = map Line junk @ Line d # rest"
    and "strip (lower d) \<in> {''n'', ''no'', ''''}"
    and "truthy (config_arg a) \<longrightarrow>
           (\<exists>content v. files w (text_of (config_arg a)) = Some content \<and>
              safe_load e content = Document v)"
  shows "fst (main e argv w) = Inl (SystemExit 0) \<and>
         files (snd (main e argv w)) = files w \<and>
         history (snd (main e argv w)) = history w"
  using assms by (rule main_declined)

theorem decline_exits_zero_witness:
  "fst (main sample_env [] (world0\<lparr>stdin := [Line ''perhaps'', Line ''N'', Line ''y'']\<rparr>))
     = Inl (SystemExit 0) \<and>
   files (snd (main sample_env [] (world0\<lparr>stdin := [Line ''perhaps'', Line ''N'', Line ''y'']\<rparr>)))
     = Map.empty \<and>
   history (snd (main sample_env [] (world0\<lparr>stdin := [Line ''perhaps'', Line ''N'', Line ''y'']\<rparr>)))
     = []"
  using decline_exits_zero [of sample_env "[]" plain "[''perhaps'']"
      "world0\<lparr>stdin := [Line ''perhaps'', Line ''N'', Line ''y'']\<rparr>" "''N''" "[Line ''y'']"]
  by (simp add: world0_def plain_def sample_env_def truthy_def text_eval)



section \<open>Assertions along a run\<close>

lemma tripleI:
  "(\<And>w x w'. P w \<Longrightarrow> m w = (Inr x, w') \<Longrightarrow> N x w') \<Longrightarrow>
   (\<And>w ex w'. P w \<Longrightarrow> m w = (Inl ex, w') \<Longrightarrow> X ex w') \<Longrightarrow> triple P m N X"
  by (auto simp: triple_def split: prod.splits sum.splits)

lemma triple_Inr: "triple P m N X \<Longrightarrow> P w \<Longrightarrow> m w = (Inr x, w') \<Longrightarrow> N x w'"
  by (auto simp: triple_def split: prod.splits sum.splits)

lemma triple_Inl: "triple P m N X \<Longrightarrow> P w \<Longrightarrow> m w = (Inl ex, w') \<Longrightarrow> X ex w'"
  by (auto simp: triple_def split: prod.splits sum.splits)

lemma triple_weaken:
  assumes "triple P' m N' X'" "\<And>w. P w \<Longrightarrow> P' w" "\<And>x w. N' x w \<Longrightarrow> N x w"
    "\<And>ex w. X' ex w \<Longrightarrow> X ex w"
  shows "triple P m N X"
proof (rule tripleI)
  fix w x w' assume "P w" "m w = (Inr x, w')"
  with assms(1,2,3) triple_Inr [of P' m N' X' w x w'] show "N x w'" by blast
next
  fix w ex w' assume "P w" "m w = (Inl ex, w')"
  with assms(1,2,4) triple_Inl [of P' m N' X' w ex w'] show "X ex w'" by blast
qed

lemma triple_andthen:
  assumes "triple P m R X" "\<And>x. triple (R x) (f x) N X"
  shows "triple P (andthen m f) N X"
proof (rule tripleI)
  fix w y w' assume p: "P w" and r: "andthen m f w = (Inr y, w')"
  then obtain x w1 where "m w = (Inr x, w1)" "f x w1 = (Inr y, w')"
    by (auto simp: andthen_Inr_iff)
  with p assms triple_Inr [of P m R X w x w1] triple_Inr [of "R x" "f x" N X w1 y w']
  show "N y w'" by blast
next
  fix w ex w' assume p: "P w" and r: "andthen m f w = (Inl ex, w')"
  then consider "m w = (Inl ex, w')" | x w1 where "m w = (Inr x, w1)" "f x w1 = (Inl ex, w')"
    by (auto simp: andthen_Inl_iff)
  then show "X ex w'"
  proof cases
    case 1
    with p assms(1) show ?thesis by (rule_tac triple_Inl)
  next
    case 2
    with p assms triple_Inr [of P m R X w x w1] triple_Inl [of "R x" "f x" N X w1 ex w']
    show ?thesis by blast
  qed
qed

lemma triple_ret: "(\<And>w. P w \<Longrightarrow> N x w) \<Longrightarrow> triple P (ret x) N X"
  by (auto simp: triple_def ret_def)

lemma triple_steps_Nil: "(\<And>w. P w \<Longrightarrow> N () w) \<Longrightarrow> triple P (steps []) N X"
  by (simp add: triple_ret)

lemma triple_steps_Cons:
  "triple P m (\<lambda>_. R) X \<Longrightarrow> triple R (steps ms) N X \<Longrightarrow> triple P (steps (m # ms)) N X"
  by (simp add: triple_andthen)

lemma triple_steps_keep:
  "(\<And>m. m \<in> set ms \<Longrightarrow> triple Q m (\<lambda>_. Q) X) \<Longrightarrow> triple Q (steps ms) (\<lambda>_. Q) X"
proof (induction ms)
  case Nil
  show ?case by (rule triple_steps_Nil)
next
  case (Cons m ms)
  show ?case
    by (rule triple_steps_Cons [where R = Q]) (simp_all add: Cons)
qed

lemma triple_if:
  "(b \<Longrightarrow> triple P m N X) \<Longrightarrow> (\<not> b \<Longrightarrow> triple P n N X) \<Longrightarrow> triple P (if b then m else n) N X"
  by simp

lemma io_only_refl [simp]: "io_only w w"
  by (simp add: io_only_def)

lemma io_only_trans: "io_only w w1 \<Longrightarrow> io_only w1 w2 \<Longrightarrow> io_only w w2"
  by (simp add: io_only_def)

lemma io_only_update: "io_only w w' \<Longrightarrow> w' = w\<lparr>stdin := stdin w', printed := printed w'\<rparr>"
  by (rule world.equality) (simp_all add: io_only_def)

lemma io_stableD:
  assumes "io_stable Q" "Q w" "io_only w w'"
  shows "Q w'"
proof -
  from assms(1,2) have q: "Q (w\<lparr>stdin := stdin w', printed := printed w'\<rparr>)"
    unfolding io_stable_def by blast
  have "w\<lparr>stdin := stdin w', printed := printed w'\<rparr> = w'"
    using io_only_update [OF assms(3)] by (rule sym)
  with q show ?thesis by (simp only:)
qed

lemma print_effect: "print s w = (res, w') \<Longrightarrow> io_only w w' \<and> (\<exists>u. res = Inr u)"
  by (auto simp: print_def io_only_def)

lemma triple_print:
  assumes "io_stable Q"
  shows "triple Q (print s) (\<lambda>_. Q) X"
proof (rule tripleI)
  fix w x w' assume "Q w" "print s w = (Inr x, w')"
  with print_effect [of s w "Inr x" w'] io_stableD [OF assms, of w w'] show "Q w'"
    by simp
next
  fix w ex w' assume "print s w = (Inl ex, w')"
  with print_effect [of s w "Inl ex" w'] show "X ex w'" by simp
qed

lemma input_effect:
  "input p w = (res, w') \<Longrightarrow> io_only w w' \<and> (\<forall>ex. res = Inl ex \<longrightarrow> io_error ex)"
  by (auto simp: input_def Let_def io_error_def io_only_def split: list.splits event.splits)

lemma getpass_effect:
  "getpass p w = (res, w') \<Longrightarrow> io_only w w' \<and> (\<forall>ex. res = Inl ex \<longrightarrow> io_error ex)"
  by (auto simp: getpass_def io_error_def io_only_def split: list.splits event.splits)

lemma get_user_input_effect:
  "get_user_input p d r w = (res, w') \<Longrightarrow> io_only w w' \<and> (\<forall>ex. res = Inl ex \<longrightarrow> io_error ex)"
proof (induction p d r w rule: get_user_input.induct)
  case (1 prompt dflt required w)
  show ?case
  proof (cases "input (full_prompt prompt dflt) w")
    case (Pair res1 w1)
    note eff = input_effect [OF Pair]
    show ?thesis
    proof (cases res1)
      case (Inl ex')
      with Pair "1.prems" have "res = Inl ex' \<and> w' = w1"
        by (subst (asm) get_user_input.simps) simp
      with eff Inl show ?thesis by simp
    next
      case (Inr line)
      show ?thesis
      proof (cases "strip line \<noteq> [] \<or> truthy dflt \<or> \<not> required")
        case True
        with Pair Inr "1.prems" have "w' = w1 \<and> (\<exists>x. res = Inr x)"
          by (subst (asm) get_user_input.simps) (auto simp: Let_def split: if_splits)
        with eff show ?thesis by auto
      next
        case False
        obtain u w2 where pr: "print ''This field is required. Please enter a value.'' w1 = (u, w2)"
          by (simp add: print_def)
        from Pair Inr False pr "1.prems" have "get_user_input prompt dflt required w2 = (res, w')"
          by (subst (asm) get_user_input.simps) (simp add: Let_def)
        with "1.IH" [OF Pair [symmetric] Inr refl _ _ _ pr [symmetric]] False
        have ih: "io_only w2 w' \<and> (\<forall>ex. res = Inl ex \<longrightarrow> io_error ex)"
          by auto
        from pr have "io_only w1 w2"
          by (auto simp: print_def io_only_def)
        with eff ih show ?thesis by (simp add: io_only_def)
      qed
    qed
  qed
qed

lemma confirm_action_effect:
  "confirm_action m w = (res, w') \<Longrightarrow> io_only w w' \<and> (\<forall>ex. res = Inl ex \<longrightarrow> io_error ex)"
proof (induction m w rule: confirm_action.induct)
  case (1 message w)
  show ?case
  proof (cases "input (message @ '' [y/N]: '') w")
    case (Pair res1 w1)
    note eff = input_effect [OF Pair]
    show ?thesis
    proof (cases res1)
      case (Inl ex')
      with Pair "1.prems" have "res = Inl ex' \<and> w' = w1"
        by (subst (asm) confirm_action.simps) simp
      with eff Inl show ?thesis by simp
    next
      case (Inr line)
      show ?thesis
      proof (cases "strip (lower line) \<in> {''y'', ''yes'', ''n'', ''no'', ''''}")
        case True
        with Pair Inr "1.prems" have "w' = w1 \<and> (\<exists>x. res = Inr x)"
          by (subst (asm) confirm_action.simps) (auto simp: Let_def split: if_splits)
        with eff show ?thesis by auto
      next
        case False
        obtain u w2 where pr: "print (''Please enter '' @ quote @ ''y'' @ quote @ '' for yes or ''
                                 @ quote @ ''n'' @ quote @ '' for no.'') w1 = (u, w2)"
          by (simp add: print_def)
        from Pair Inr False pr "1.prems" have "confirm_action message w2 = (res, w')"
          by (subst (asm) confirm_action.simps) (simp add: Let_def)
        with "1.IH" [OF Pair [symmetric] Inr refl _ _ pr [symmetric]] False
        have ih: "io_only w2 w' \<and> (\<forall>ex. res = Inl ex \<longrightarrow> io_error ex)"
          by auto
        from pr have "io_only w1 w2"
          by (auto simp: print_def io_only_def)
        with eff ih show ?thesis by (simp add: io_only_def)
      qed
    qed
  qed
qed

lemma triple_io:
  assumes eff: "\<And>w res w'. m w = (res, w') \<Longrightarrow> io_only w w' \<and> (\<forall>ex. res = Inl ex \<longrightarrow> io_error ex)"
    and "io_stable Q"
  shows "triple Q m (\<lambda>_. Q) (\<lambda>ex w. Q w \<and> io_error ex)"
proof (rule tripleI)
  fix w x w' assume q: "Q w" and r: "m w = (Inr x, w')"
  from eff [OF r] have "io_only w w'" by simp
  then show "Q w'" by (rule io_stableD [OF assms(2) q])
next
  fix w ex w' assume q: "Q w" and r: "m w = (Inl ex, w')"
  from eff [OF r] have "io_only w w'" "io_error ex" by simp_all
  then show "Q w' \<and> io_error ex" using io_stableD [OF assms(2) q] by simp
qed

lemma triple_get_user_input:
  "io_stable Q \<Longrightarrow> triple Q (get_user_input p d r) (\<lambda>_. Q) (\<lambda>ex w. Q w \<and> io_error ex)"
  by (rule triple_io) (simp_all add: get_user_input_effect)

lemma triple_confirm_action:
  "io_stable Q \<Longrightarrow> triple Q (confirm_action m) (\<lambda>_. Q) (\<lambda>ex w. Q w \<and> io_error ex)"
  by (rule triple_io) (simp_all add: confirm_action_effect)

lemma triple_getpass:
  "io_stable Q \<Longrightarrow> triple Q (getpass p) (\<lambda>_. Q) (\<lambda>ex w. Q w \<and> io_error ex)"
  by (rule triple_io) (simp_all add: getpass_effect)

section \<open>Writing into the configuration\<close>

lemma getitem_Inr: "getitem c k = Inr v \<Longrightarrow> is_dict c \<and> k \<in> keys c"
  by (cases c) (auto split: option.splits dest: map_of_SomeD intro: rev_image_eqI)


lemma getitem_present: "is_dict c \<Longrightarrow> k \<in> keys c \<Longrightarrow> \<exists>v. getitem c k = Inr v"
  by (cases c) (auto split: option.splits simp: map_of_eq_None_iff)

lemma getitem_raises: "is_dict c \<Longrightarrow> getitem c k = Inl ex \<Longrightarrow> ex = KeyError k"
  by (cases c) (auto split: option.splits)


lemma setitem_Inr:
  assumes "setitem c k x = Inr c'"
  shows "is_dict c" "is_dict c'" "keys c' = insert k (keys c)" "getitem c' k = Inr x"
    "\<And>k'. k' \<noteq> k \<Longrightarrow> getitem c' k' = getitem c k'"
  using assms by (cases c; auto simp: update_conv' dom_update image_iff)+

lemma set_path_Inr:
  assumes "set_path c p x = Inr c'" "p \<noteq> []"
  shows "is_dict c \<and> is_dict c' \<and> keys c' = insert (hd p) (keys c) \<and> get_path c' p = Inr x \<and>
         (\<forall>k'. k' \<noteq> hd p \<longrightarrow> getitem c' k' = getitem c k')"
  using assms
proof (induction c p x arbitrary: c' rule: set_path.induct)
  case (1 v x)
  then show ?case by simp
next
  case (2 v k x)
  with setitem_Inr [of v k x c'] show ?case by simp
next
  case (3 v k k2 ks x)
  from "3.prems" obtain sub sub' where sub: "getitem v k = Inr sub"
    and sub': "set_path sub (k2 # ks) x = Inr sub'" and c': "setitem v k sub' = Inr c'"
    by (auto split: sum.splits)
  from "3.IH" [OF sub sub'] have ih: "get_path sub' (k2 # ks) = Inr x" by simp
  from getitem_Inr [OF sub] have "k \<in> keys v" by simp
  with setitem_Inr [OF c'] ih show ?case by (auto simp del: get_path.simps simp add: get_path.simps(2) [of c' k])
qed




subsection \<open>Assertions for the statements that write\<close>

lemma triple_config_set:
  assumes "\<And>w c'. P w \<Longrightarrow> set_path (config w) p x = Inr c' \<Longrightarrow> N () (w\<lparr>config := c'\<rparr>)"
    and "\<And>w ex. P w \<Longrightarrow> set_path (config w) p x = Inl ex \<Longrightarrow> X ex w"
  shows "triple P (config_set p x) N X"
  using assms by (intro tripleI) (auto simp: config_set_def split: sum.splits)

lemma triple_ask:
  assumes "io_stable P"
    and ok: "\<And>w v c'. P w \<Longrightarrow> set_path (config w) p (VStr v) = Inr c' \<Longrightarrow> N () (w\<lparr>config := c'\<rparr>)"
    and bad: "\<And>w v ex. P w \<Longrightarrow> set_path (config w) p (VStr v) = Inl ex \<Longrightarrow> X ex w"
    and io: "\<And>w ex. P w \<Longrightarrow> io_error ex \<Longrightarrow> X ex w"
  shows "triple P (ask p prompt d r) N X"
  unfolding ask_def
proof (rule triple_andthen [where R = "\<lambda>_. P"])
  show "triple P (get_user_input prompt d r) (\<lambda>_. P) X"
    by (rule triple_weaken [OF triple_get_user_input [OF assms(1)]]) (auto intro: io)
  show "triple P (config_set p (VStr v)) N X" for v
    by (rule triple_config_set) (auto intro: ok bad)
qed

lemma triple_config_str:
  assumes "\<And>w s. P w \<Longrightarrow> get_path (config w) p = Inr (VStr s) \<Longrightarrow> N s w"
    and "\<And>w ex. P w \<Longrightarrow> fst (config_str p w) = Inl ex \<Longrightarrow> X ex w"
  shows "triple P (config_str p) N X"
proof (rule tripleI)
  fix w s w' assume "P w" "config_str p w = (Inr s, w')"
  moreover from this have "w' = w \<and> get_path (config w) p = Inr (VStr s)"
    by (auto simp: config_str_def config_get_def andthen_def lift_def split: sum.splits
        elim: the_str.elims)
  ultimately show "N s w'" using assms(1) by simp
next
  fix w ex w' assume "P w" "config_str p w = (Inl ex, w')"
  moreover from this have "w' = w"
    by (auto simp: config_str_def config_get_def andthen_def lift_def split: sum.splits)
  ultimately show "X ex w'" using assms(2) [of w ex] by simp
qed

lemma triple_while_invalid:
  assumes st: "io_stable Q"
    and ok: "\<And>w v c'. Q w \<Longrightarrow> set_path (config w) p (VStr v) = Inr c' \<Longrightarrow> Q (w\<lparr>config := c'\<rparr>)"
    and bad: "\<And>w v ex. Q w \<Longrightarrow> set_path (config w) p (VStr v) = Inl ex \<Longrightarrow> X ex w"
    and io: "\<And>w ex. Q w \<Longrightarrow> io_error ex \<Longrightarrow> X ex w"
    and rd: "\<And>w ex. Q w \<Longrightarrow> fst (config_str p w) = Inl ex \<Longrightarrow> X ex w"
  shows "triple Q (while_invalid valid p complaint prompt) (\<lambda>_. Q) X"
proof -
  have body: "triple Q (andthen (print complaint) (\<lambda>_. ask p prompt None True)) (\<lambda>_. Q) X"
    by (rule triple_andthen [where R = "\<lambda>_. Q"])
       (auto intro!: triple_print triple_ask st intro: ok bad io)
  have "Q w \<Longrightarrow> while_invalid valid p complaint prompt w = (res, w') \<Longrightarrow>
        (\<And>w ex. Q w \<Longrightarrow> fst (config_str p w) = Inl ex \<Longrightarrow> X ex w) \<Longrightarrow>
        triple Q (andthen (print complaint) (\<lambda>_. ask p prompt None True)) (\<lambda>_. Q) X \<Longrightarrow>
        (case res of Inl ex \<Rightarrow> X ex w' | Inr u \<Rightarrow> Q w')" for w res w'
  proof (induction valid p complaint prompt w rule: while_invalid.induct)
    case (1 valid path complaint prompt w)
    show ?case
    proof (cases "config_str path w")
      case (Pair r1 w1)
      then have w1: "w1 = w"
        by (auto simp: config_str_def config_get_def andthen_def lift_def split: sum.splits)
      show ?thesis
      proof (cases r1)
        case (Inl ex)
        with Pair "1.prems"(2) have "res = Inl ex \<and> w' = w1"
          by (subst (asm) while_invalid.simps) simp
        with "1.prems"(3) [of w ex] "1.prems"(1) Pair Inl w1 show ?thesis by simp
      next
        case (Inr s)
        show ?thesis
        proof (cases "valid s")
          case True
          with Pair Inr "1.prems"(2) have "res = Inr () \<and> w' = w1"
            by (subst (asm) while_invalid.simps) simp
          with "1.prems"(1) w1 show ?thesis by simp
        next
          case False
          show ?thesis
          proof (cases "andthen (print complaint) (\<lambda>_. ask path prompt None True) w1")
            case again: (Pair r2 w2)
            show ?thesis
            proof (cases r2)
              case (Inl ex)
              with Pair Inr False again "1.prems"(2) have "res = Inl ex \<and> w' = w2"
                by (subst (asm) while_invalid.simps) simp
              moreover from "1.prems"(4) "1.prems"(1) again Inl w1 have "X ex w2"
                by (auto dest: triple_Inl)
              ultimately show ?thesis by simp
            next
              case inner: (Inr u)
              with Pair Inr False again "1.prems"(2)
              have "while_invalid valid path complaint prompt w2 = (res, w')"
                by (subst (asm) while_invalid.simps) simp
              moreover from "1.prems"(4) "1.prems"(1) again inner w1 have "Q w2"
                by (auto dest: triple_Inr)
              ultimately show ?thesis
                using "1.IH" [OF Pair [symmetric] Inr False again [symmetric] inner]
                  "1.prems"(3,4) by blast
            qed
          qed
        qed
      qed
    qed
  qed
  note loop = this [OF _ _ rd body]
  show ?thesis
  proof (rule tripleI)
    fix w x w' assume "Q w" "while_invalid valid p complaint prompt w = (Inr x, w')"
    from loop [OF this] show "Q w'" by simp
  next
    fix w ex w' assume "Q w" "while_invalid valid p complaint prompt w = (Inl ex, w')"
    from loop [OF this] show "X ex w'" by simp
  qed
qed

section \<open>A menu answer that is no choice\<close>
























section \<open>Stages of a run\<close>










section \<open>Sub-records and the component list\<close>

lemma survivesD:
  "survives Q k \<Longrightarrow> Q w \<Longrightarrow> set_path (config w) p x = Inr c' \<Longrightarrow> p \<noteq> [] \<Longrightarrow> hd p = k \<Longrightarrow>
   Q (w\<lparr>config := c'\<rparr>)"
  unfolding survives_def by blast

lemma io_stable_tagged: "io_stable (tagged K)"
  by (simp add: io_stable_def tagged_def)

lemma io_stable_holds: "io_stable (holds K r)"
  by (simp add: io_stable_def holds_def tagged_def)

lemma survives_tagged: "k \<notin> tags \<or> k \<in> K \<Longrightarrow> survives (tagged K) k"
  unfolding survives_def tagged_def
proof (intro allI impI)
  fix w p x c'
  assume k: "k \<notin> tags \<or> k \<in> K"
    and a: "keys (config w) \<inter> tags = K \<and> p \<noteq> [] \<and> hd p = k \<and> set_path (config w) p x = Inr c'"
  then have "keys c' = insert k (keys (config w))"
    using set_path_Inr [of "config w" p x c'] by simp
  with k a show "keys (config (w\<lparr>config := c'\<rparr>)) \<inter> tags = K" by auto
qed

lemma survives_holds:
  assumes "k \<noteq> ''components''" "k \<notin> tags \<or> k \<in> K"
  shows "survives (holds K r) k"
  unfolding survives_def holds_def
proof (intro allI impI)
  fix w p x c'
  assume a: "(tagged K w \<and> getitem (config w) ''components'' = r) \<and> p \<noteq> [] \<and> hd p = k \<and>
             set_path (config w) p x = Inr c'"
  then have "tagged K (w\<lparr>config := c'\<rparr>)"
    using survivesD [OF survives_tagged [OF assms(2)], of w p x c'] by simp
  moreover from a assms(1) have "getitem c' ''components'' = getitem (config w) ''components''"
    using set_path_Inr [of "config w" p x c'] by simp
  ultimately show "tagged K (w\<lparr>config := c'\<rparr>) \<and> getitem (config (w\<lparr>config := c'\<rparr>)) ''components'' = r"
    using a by simp
qed

lemma holds_new:
  assumes "holds K r w" "set_path (config w) [k] x = Inr c'" "k \<in> tags"
  shows "holds (insert k K) r (w\<lparr>config := c'\<rparr>)"
proof -
  from assms(3) have "k \<noteq> ''components''" by (auto simp: tags_def)
  with set_path_Inr [OF assms(2)] assms(1,3) show ?thesis
    by (auto simp: holds_def tagged_def)
qed

subsection \<open>Statements that keep an assertion\<close>

lemma keep_print: "io_stable Q \<Longrightarrow> triple Q (print s) (\<lambda>_. Q) anyhow"
  by (rule triple_print)

lemma keep_config_set:
  assumes "survives Q (hd p)" "p \<noteq> []"
  shows "triple Q (config_set p x) (\<lambda>_. Q) anyhow"
  by (rule triple_config_set) (auto simp: anyhow_def intro: survivesD [OF assms(1) _ _ assms(2)])

lemma keep_ask:
  assumes "io_stable Q" "survives Q (hd p)" "p \<noteq> []"
  shows "triple Q (ask p prompt d r) (\<lambda>_. Q) anyhow"
  by (rule triple_ask [OF assms(1)])
     (auto simp: anyhow_def intro: survivesD [OF assms(2) _ _ assms(3)])

lemma keep_while_invalid:
  assumes "io_stable Q" "survives Q (hd p)" "p \<noteq> []"
  shows "triple Q (while_invalid valid p complaint prompt) (\<lambda>_. Q) anyhow"
  by (rule triple_while_invalid [OF assms(1)])
     (auto simp: anyhow_def intro: survivesD [OF assms(2) _ _ assms(3)])

lemma keep_answer:
  assumes "io_stable Q" "survives Q (hd p)" "p \<noteq> []"
  shows "triple Q (andthen (get_user_input prompt d r) (\<lambda>v. config_set p (f v))) (\<lambda>_. Q) anyhow"
proof (rule triple_andthen [where R = "\<lambda>_. Q"])
  show "triple Q (get_user_input prompt d r) (\<lambda>_. Q) anyhow"
    by (rule triple_weaken [OF triple_get_user_input [OF assms(1)]]) (auto simp: anyhow_def)
  show "triple Q (config_set p (f v)) (\<lambda>_. Q) anyhow" for v
    by (rule keep_config_set [OF assms(2,3)])
qed

lemma keep_password:
  assumes "io_stable Q" "survives Q (hd p)" "p \<noteq> []"
  shows "triple Q (andthen (get_password prompt) (\<lambda>v. config_set p (f v))) (\<lambda>_. Q) anyhow"
proof (rule triple_andthen [where R = "\<lambda>_. Q"])
  show "triple Q (get_password prompt) (\<lambda>_. Q) anyhow"
    unfolding get_password_def
    by (rule triple_weaken [OF triple_getpass [OF assms(1)]]) (auto simp: anyhow_def)
  show "triple Q (config_set p (f v)) (\<lambda>_. Q) anyhow" for v
    by (rule keep_config_set [OF assms(2,3)])
qed

lemma keep_read_then_ask:
  assumes "io_stable Q" "survives Q (hd p)" "p \<noteq> []"
  shows "triple Q (andthen (config_str q) (\<lambda>s. ask p prompt (d s) r)) (\<lambda>_. Q) anyhow"
proof (rule triple_andthen [where R = "\<lambda>_. Q"])
  show "triple Q (config_str q) (\<lambda>_. Q) anyhow"
    by (rule triple_config_str) (simp_all add: anyhow_def)
  show "triple Q (ask p prompt (d s) r) (\<lambda>_. Q) anyhow" for s
    by (rule keep_ask [OF assms])
qed

lemmas keep_intros = keep_print keep_config_set keep_ask keep_while_invalid keep_answer
  keep_password keep_read_then_ask

subsection \<open>The sections of the questionnaire\<close>

lemma keep_config_append:
  assumes "survives Q (hd p)" "p \<noteq> []"
  shows "triple Q (config_append p x) (\<lambda>_. Q) anyhow"
  unfolding config_append_def
proof (rule triple_andthen [where R = "\<lambda>_. Q"])
  show "triple Q (config_get p) (\<lambda>_. Q) anyhow"
    by (rule tripleI) (auto simp: config_get_def anyhow_def)
  show "triple Q (case v of VList xs \<Rightarrow> config_set p (VList (xs @ [x]))
          | _ \<Rightarrow> raise (AttributeError (quote @ type_name v @ quote @ '' object has no attribute ''
                                        @ quote @ ''append'' @ quote))) (\<lambda>_. Q) anyhow" for v
    by (cases v) (auto intro: keep_config_set [OF assms] tripleI simp: raise_def anyhow_def)
qed

lemma keep_confirm_action: "io_stable Q \<Longrightarrow> triple Q (confirm_action m) (\<lambda>_. Q) anyhow"
  by (rule triple_weaken [OF triple_confirm_action]) (auto simp: anyhow_def)

lemma keep_custom_selection:
  assumes "io_stable Q" "survives Q ''components''"
  shows "triple Q (custom_selection cs) (\<lambda>_. Q) anyhow"
proof (induction cs)
  case Nil
  show ?case by (simp add: triple_ret)
next
  case (Cons c cs)
  show ?case
    unfolding custom_selection.simps
  proof (intro triple_andthen [where R = "\<lambda>_. Q"])
    show "triple Q (confirm_action (''Deploy '' @ upper c @ ''?'')) (\<lambda>_. Q) anyhow"
      by (rule keep_confirm_action [OF assms(1)])
    show "triple Q (if yes then config_append [''components''] (VStr c) else ret ()) (\<lambda>_. Q) anyhow"
      for yes
      using assms(2) by (auto intro!: triple_if keep_config_append triple_ret)
    show "triple Q (custom_selection cs) (\<lambda>_. Q) anyhow"
      by (rule Cons.IH)
  qed
qed

lemma keep_select_components:
  assumes "io_stable Q" "survives Q ''components''"
  shows "triple Q (select_components choice) (\<lambda>_. Q) anyhow"
  unfolding select_components_def
  using assms
  by (intro triple_if triple_andthen [where R = "\<lambda>_. Q"] keep_config_set keep_custom_selection
      triple_ret) simp_all

lemma keep_deployment_type_selection:
  assumes "io_stable Q" "survives Q ''components''"
  shows "triple Q deployment_type_selection (\<lambda>_. Q) anyhow"
  unfolding deployment_type_selection_def
proof (rule triple_steps_keep)
  fix m
  assume "m \<in> set [print (newline @ ''Select components to deploy:''),
       print ''1. Full Magma Stack (Orchestrator + AGW + FGW + NMS)'',
       print ''2. Orchestrator only'',
       print ''3. Access Gateway only'',
       print ''4. Federated Gateway only'',
       print ''5. Custom selection'',
       andthen (get_user_input ''Enter your choice (1-5)'' (Some ''1'') True) select_components]"
  then consider s where "m = print s"
    | "m = andthen (get_user_input ''Enter your choice (1-5)'' (Some ''1'') True) select_components"
    by auto
  then show "triple Q m (\<lambda>_. Q) anyhow"
  proof cases
    case 1
    then show ?thesis by (simp add: keep_print [OF assms(1)])
  next
    case 2
    show ?thesis
      unfolding 2
    proof (rule triple_andthen [where R = "\<lambda>_. Q"])
      show "triple Q (get_user_input ''Enter your choice (1-5)'' (Some ''1'') True) (\<lambda>_. Q) anyhow"
        by (rule triple_weaken [OF triple_get_user_input [OF assms(1)]]) (auto simp: anyhow_def)
      show "triple Q (select_components choice) (\<lambda>_. Q) anyhow" for choice
        by (rule keep_select_components [OF assms])
    qed
  qed
qed

lemma keep_general_configuration:
  assumes "io_stable Q" "survives Q ''domain''" "survives Q ''admin_email''"
  shows "triple Q general_configuration (\<lambda>_. Q) anyhow"
  unfolding general_configuration_def
  by (rule triple_steps_keep) (use assms in \<open>auto intro!: keep_ask keep_while_invalid\<close>)

lemma keep_network_configuration:
  assumes "io_stable Q" "survives Q ''network''"
  shows "triple Q (network_configuration e) (\<lambda>_. Q) anyhow"
  unfolding network_configuration_def
  by (rule triple_steps_keep)
     (use assms in \<open>auto intro!: keep_ask keep_while_invalid keep_print keep_config_set\<close>)

lemma keep_save_configuration:
  assumes "\<And>w pr. Q w \<Longrightarrow> Q (w\<lparr>printed := pr\<rparr>)"
    and "\<And>w fs. Q w \<Longrightarrow> Q (w\<lparr>files := fs\<rparr>)"
  shows "triple Q (save_configuration e) (\<lambda>_. Q) anyhow"
  by (rule tripleI)
     (auto simp: save_configuration_def save_config_def write_file_def andthen_def print_def
        ret_def anyhow_def intro: assms)

subsection \<open>The component sections\<close>

lemma new_sub_record:
  assumes "k \<in> tags"
  shows "triple (holds K r) (config_set [k] (VDict [])) (\<lambda>_. holds (insert k K) r) anyhow"
  by (rule triple_config_set) (auto simp: anyhow_def intro: holds_new [OF _ _ assms])

lemma survives_own: "k \<in> tags \<Longrightarrow> survives (holds (insert k K) r) k"
  by (rule survives_holds) (auto simp: tags_def)

lemma triple_collect_orchestrator_config:
  "triple (holds K r) collect_orchestrator_config (\<lambda>_. holds (insert ''orchestrator'' K) r) anyhow"
  unfolding collect_orchestrator_config_def
proof (rule triple_steps_Cons [where R = "holds K r"])
  have t: "''orchestrator'' \<in> tags" by (simp add: tags_def)
  note own = survives_own [OF t, of K r]
  note st = io_stable_holds [of "insert ''orchestrator'' K" r]
  show "triple (holds K r) (print (newline @ mark_crane @ ''  Orchestrator Configuration''))
          (\<lambda>_. holds K r) anyhow"
    by (rule keep_print [OF io_stable_holds])
  show "triple (holds K r)
     (steps
       [config_set [''orchestrator''] (VDict []),
        ask [''orchestrator'', ''namespace''] ''Kubernetes namespace'' (Some ''magma'') True,
        ask [''orchestrator'', ''storage_class''] ''Storage class'' (Some ''standard'') True,
        ask [''orchestrator'', ''db_host''] ''Database host'' (Some ''postgresql'') True,
        ask [''orchestrator'', ''db_port''] ''Database port'' (Some ''5432'') True,
        ask [''orchestrator'', ''db_user''] ''Database user'' (Some ''magma'') True,
        andthen (get_password ''Database password'')
         (\<lambda>v. config_set [''orchestrator'', ''db_password''] (VStr v)),
        ask [''orchestrator'', ''db_name''] ''Database name'' (Some ''magma'') True,
        ask [''orchestrator'', ''tls_cert_path''] ''TLS certificate path''
         (Some ''/opt/magma/certs/tls.crt'') False,
        ask [''orchestrator'', ''tls_key_path''] ''TLS key path'' (Some ''/opt/magma/certs/tls.key'')
         False])
     (\<lambda>_. holds (insert ''orchestrator'' K) r) anyhow"
  proof (rule triple_steps_Cons [where R = "holds (insert ''orchestrator'' K) r"])
    show "triple (holds K r) (config_set [''orchestrator''] (VDict []))
            (\<lambda>_. holds (insert ''orchestrator'' K) r) anyhow"
      by (rule new_sub_record [OF t])
  qed (rule triple_steps_keep, use own st in \<open>auto intro!: keep_ask keep_password\<close>)
qed

lemma triple_collect_agw_config:
  "triple (holds K r) (collect_agw_config e) (\<lambda>_. holds (insert ''agw'' K) r) anyhow"
  unfolding collect_agw_config_def
proof (rule triple_steps_Cons [where R = "holds K r"])
  have t: "''agw'' \<in> tags" by (simp add: tags_def)
  note own = survives_own [OF t, of K r]
  note st = io_stable_holds [of "insert ''agw'' K" r]
  show "triple (holds K r) (print (newline @ mark_antenna @ '' Access Gateway Configuration''))
          (\<lambda>_. holds K r) anyhow"
    by (rule keep_print [OF io_stable_holds])
  show "triple (holds K r)
     (steps
       [config_set [''agw''] (VDict []),
        ask [''agw'', ''interface''] ''Network interface'' (Some ''eth0'') True,
        ask [''agw'', ''ip_address''] ''AGW IP address'' None True,
        while_invalid (validate_ip_address e) [''agw'', ''ip_address'']
          ''Invalid IP address format.'' ''AGW IP address'',
        ask [''agw'', ''mcc''] ''Mobile Country Code (MCC)'' (Some ''001'') True,
        ask [''agw'', ''mnc''] ''Mobile Network Code (MNC)'' (Some ''01'') True,
        ask [''agw'', ''tac''] ''Tracking Area Code (TAC)'' (Some ''1'') True,
        andthen (config_str [''agw'', ''ip_address''])
         (\<lambda>ip. ask [''agw'', ''s1ap_ip''] ''S1AP IP address'' (Some ip) True),
        ask [''agw'', ''s1ap_port''] ''S1AP port'' (Some ''36412'') True])
     (\<lambda>_. holds (insert ''agw'' K) r) anyhow"
  proof (rule triple_steps_Cons [where R = "holds (insert ''agw'' K) r"])
    show "triple (holds K r) (config_set [''agw''] (VDict []))
            (\<lambda>_. holds (insert ''agw'' K) r) anyhow"
      by (rule new_sub_record [OF t])
  qed (rule triple_steps_keep,
       use own st in \<open>auto intro!: keep_ask keep_while_invalid keep_read_then_ask\<close>)
qed

lemma triple_collect_fgw_config:
  "triple (holds K r) collect_fgw_config (\<lambda>_. holds (insert ''fgw'' K) r) anyhow"
  unfolding collect_fgw_config_def
proof (rule triple_steps_Cons [where R = "holds K r"])
  have t: "''fgw'' \<in> tags" by (simp add: tags_def)
  note own = survives_own [OF t, of K r]
  note st = io_stable_holds [of "insert ''fgw'' K" r]
  show "triple (holds K r) (print (newline @ mark_link @ '' Federated Gateway Configuration''))
          (\<lambda>_. holds K r) anyhow"
    by (rule keep_print [OF io_stable_holds])
  show "triple (holds K r)
     (steps
       [config_set [''fgw''] (VDict []),
        ask [''fgw'', ''federation_id''] ''Federation ID'' (Some ''fgw01'') True,
        andthen (get_user_input ''Served network IDs (comma-separated)'' (Some ''network1,network2'') True)
          (\<lambda>v. config_set [''fgw'', ''served_network_ids''] (VList (map VStr (split v (CHR '','')))))
        ,
        ask [''fgw'', ''diameter_host''] ''Diameter host'' (Some ''fgw.magma.local'') True,
        ask [''fgw'', ''diameter_realm''] ''Diameter realm'' (Some ''magma.local'') True,
        ask [''fgw'', ''diameter_port''] ''Diameter port'' (Some ''3868'') True])
     (\<lambda>_. holds (insert ''fgw'' K) r) anyhow"
  proof (rule triple_steps_Cons [where R = "holds (insert ''fgw'' K) r"])
    show "triple (holds K r) (config_set [''fgw''] (VDict []))
            (\<lambda>_. holds (insert ''fgw'' K) r) anyhow"
      by (rule new_sub_record [OF t])
  qed (rule triple_steps_keep, use own st in \<open>auto intro!: keep_ask keep_answer\<close>)
qed

lemma triple_section:
  assumes "triple (holds K r) block (\<lambda>_. holds (insert k K) r) anyhow"
  shows "triple (holds K r)
           (andthen (config_contains k [''components'']) (\<lambda>selected.
              if selected then block else ret ()))
           (\<lambda>_. holds (if chosen r k then insert k K else K) r) anyhow"
proof (rule triple_andthen [where R = "\<lambda>selected w. holds K r w \<and> selected = chosen r k"])
  show "triple (holds K r) (config_contains k [''components''])
          (\<lambda>selected w. holds K r w \<and> selected = chosen r k) anyhow"
    by (rule tripleI)
       (auto simp: config_contains_def config_get_def andthen_def lift_def holds_def chosen_def
          anyhow_def split: sum.splits)
  show "triple (\<lambda>w. holds K r w \<and> selected = chosen r k) (if selected then block else ret ())
          (\<lambda>_. holds (if chosen r k then insert k K else K) r) anyhow" for selected
  proof (cases selected)
    case True
    show ?thesis
    proof (cases "chosen r k")
      case yes: True
      have "triple (\<lambda>w. holds K r w \<and> selected = chosen r k) block
              (\<lambda>_. holds (if chosen r k then insert k K else K) r) anyhow"
        by (rule triple_weaken [OF assms]) (use yes in auto)
      with True show ?thesis by simp
    next
      case False
      with True show ?thesis by (auto intro: tripleI)
    qed
  next
    case False
    then show ?thesis by (auto intro!: triple_ret)
  qed
qed

lemma triple_component_configuration:
  "triple (holds K r) (component_configuration e)
     (\<lambda>_. holds (K \<union> {k \<in> tags. chosen r k}) r) anyhow"
  unfolding component_configuration_def
proof (rule triple_steps_Cons
        [where R = "holds (if chosen r ''orchestrator'' then insert ''orchestrator'' K else K) r"])
  let ?K1 = "if chosen r ''orchestrator'' then insert ''orchestrator'' K else K"
  let ?K2 = "if chosen r ''agw'' then insert ''agw'' ?K1 else ?K1"
  let ?K3 = "if chosen r ''fgw'' then insert ''fgw'' ?K2 else ?K2"
  show "triple (holds K r)
          (andthen (config_contains ''orchestrator'' [''components'']) (\<lambda>selected.
             if selected then collect_orchestrator_config else ret ()))
          (\<lambda>_. holds ?K1 r) anyhow"
    by (rule triple_section [OF triple_collect_orchestrator_config])
  show "triple (holds ?K1 r)
          (steps [andthen (config_contains ''agw'' [''components'']) (\<lambda>selected.
                    if selected then collect_agw_config e else ret ()),
                  andthen (config_contains ''fgw'' [''components'']) (\<lambda>selected.
                    if selected then collect_fgw_config else ret ())])
          (\<lambda>_. holds (K \<union> {k \<in> tags. chosen r k}) r) anyhow"
  proof (rule triple_steps_Cons [where R = "holds ?K2 r"])
    show "triple (holds ?K1 r)
            (andthen (config_contains ''agw'' [''components'']) (\<lambda>selected.
               if selected then collect_agw_config e else ret ()))
            (\<lambda>_. holds ?K2 r) anyhow"
      by (rule triple_section [OF triple_collect_agw_config])
    have last: "triple (holds ?K2 r)
            (andthen (config_contains ''fgw'' [''components'']) (\<lambda>selected.
               if selected then collect_fgw_config else ret ()))
            (\<lambda>_. holds ?K3 r) anyhow"
      by (rule triple_section [OF triple_collect_fgw_config])
    have "?K3 = K \<union> {k \<in> tags. chosen r k}"
      by (auto simp: tags_def)
    with last show "triple (holds ?K2 r)
            (steps [andthen (config_contains ''fgw'' [''components'']) (\<lambda>selected.
                      if selected then collect_fgw_config else ret ())])
            (\<lambda>_. holds (K \<union> {k \<in> tags. chosen r k}) r) anyhow"
      by (intro triple_steps_Cons [where R = "holds ?K3 r"] triple_steps_Nil) simp_all
  qed
qed

lemma holds_follows: "holds (K \<union> {k \<in> tags. chosen r k}) r w \<Longrightarrow> follows K w"
  by (auto simp: holds_def tagged_def follows_def)

lemma triple_component_follows:
  "triple (tagged K) (component_configuration e) (\<lambda>_. follows K) anyhow"
proof (rule tripleI)
  fix w x w' assume "tagged K w" and run: "component_configuration e w = (Inr x, w')"
  then have "holds K (getitem (config w) ''components'') w"
    by (simp add: holds_def)
  from triple_Inr [OF triple_component_configuration this run] show "follows K w'"
    by (rule holds_follows)
qed (simp add: anyhow_def)

lemma survives_tagged_other:
  "survives (tagged K) ''components''" "survives (tagged K) ''domain''"
  "survives (tagged K) ''admin_email''" "survives (tagged K) ''network''"
  by (rule survives_tagged, simp add: tags_def)+

lemma triple_steps_append:
  assumes "triple P (steps ms) (\<lambda>_. R) X" "triple R (steps ns) N X"
  shows "triple P (steps (ms @ ns)) N X"
  using assms(1)
proof (induction ms arbitrary: P)
  case Nil
  then have "\<And>w. P w \<Longrightarrow> R w"
    by (auto simp: triple_def ret_def)
  with assms(2) show ?case
    by (auto intro: triple_weaken)
next
  case (Cons m ms)
  show ?case
  proof (rule tripleI)
    fix w x w' assume p: "P w" and run: "steps ((m # ms) @ ns) w = (Inr x, w')"
    then obtain w1 where m: "m w = (Inr (), w1)" and rest: "steps (ms @ ns) w1 = (Inr x, w')"
      by (auto simp: andthen_Inr_iff)
    have "triple (\<lambda>v. v = w1) (steps ms) (\<lambda>_. R) X"
    proof (rule tripleI)
      fix v y v' assume "v = w1" "steps ms v = (Inr y, v')"
      with m have "steps (m # ms) w = (Inr y, v')" by (simp add: andthen_Inr)
      from triple_Inr [OF Cons.prems p this] show "R v'" .
    next
      fix v ex v' assume "v = w1" "steps ms v = (Inl ex, v')"
      with m have "steps (m # ms) w = (Inl ex, v')" by (simp add: andthen_Inr)
      from triple_Inl [OF Cons.prems p this] show "X ex v'" .
    qed
    from triple_Inr [OF Cons.IH [OF this] _ rest] show "N x w'" by simp
  next
    fix w ex w' assume p: "P w" and run: "steps ((m # ms) @ ns) w = (Inl ex, w')"
    show "X ex w'"
    proof (cases "m w")
      case (Pair r1 w1)
      show ?thesis
      proof (cases r1)
        case (Inl ex1)
        with Pair run have "ex = ex1 \<and> w' = w1" by (simp add: andthen_def)
        moreover from Pair Inl have "steps (m # ms) w = (Inl ex1, w1)" by (simp add: andthen_def)
        from triple_Inl [OF Cons.prems p this] have "X ex1 w1" .
        ultimately show ?thesis by simp
      next
        case (Inr u)
        with Pair have m: "m w = (Inr (), w1)" by simp
        with run have rest: "steps (ms @ ns) w1 = (Inl ex, w')" by (simp add: andthen_Inr)
        have "triple (\<lambda>v. v = w1) (steps ms) (\<lambda>_. R) X"
        proof (rule tripleI)
          fix v y v' assume "v = w1" "steps ms v = (Inr y, v')"
          with m have "steps (m # ms) w = (Inr y, v')" by (simp add: andthen_Inr)
          from triple_Inr [OF Cons.prems p this] show "R v'" .
        next
          fix v ex v' assume "v = w1" "steps ms v = (Inl ex, v')"
          with m have "steps (m # ms) w = (Inl ex, v')" by (simp add: andthen_Inr)
          from triple_Inl [OF Cons.prems p this] show "X ex v'" .
        qed
        from triple_Inl [OF Cons.IH [OF this] _ rest] show ?thesis by simp
      qed
    qed
  qed
qed

lemma triple_collect_deployment_config:
  "triple (tagged K) (collect_deployment_config e) (\<lambda>_. follows K) anyhow"
proof -
  have first: "triple (tagged K)
          (steps [print (newline @ mark_clipboard @ '' DEPLOYMENT CONFIGURATION''),
                  print (replicate 40 (CHR ''='')),
                  deployment_type_selection,
                  general_configuration,
                  network_configuration e])
          (\<lambda>_. tagged K) anyhow"
    by (rule triple_steps_keep)
       (auto intro: keep_print keep_deployment_type_selection keep_general_configuration
          keep_network_configuration io_stable_tagged survives_tagged_other)
  have rest: "triple (tagged K) (steps [component_configuration e, save_configuration e])
          (\<lambda>_. follows K) anyhow"
  proof (rule triple_steps_Cons [where R = "follows K"])
    show "triple (tagged K) (component_configuration e) (\<lambda>_. follows K) anyhow"
      by (rule triple_component_follows)
    have "triple (follows K) (save_configuration e) (\<lambda>_. follows K) anyhow"
      by (rule keep_save_configuration) (simp_all add: follows_def)
    then show "triple (follows K) (steps [save_configuration e]) (\<lambda>_. follows K) anyhow"
      by (intro triple_steps_Cons [where R = "follows K"] triple_steps_Nil) simp_all
  qed
  from triple_steps_append [OF first rest] show ?thesis
    by (simp add: collect_deployment_config_def)
qed

lemma chosen_config_contains:
  "chosen (getitem (config w) ''components'') k \<longleftrightarrow>
   fst (config_contains k [''components''] w) = Inr True"
  by (auto simp: chosen_def config_contains_def config_get_def andthen_def lift_def
      split: sum.splits)

lemma sub_records:
  assumes "collect_deployment_config e w = (Inr (), w')"
    and "k \<in> {''orchestrator'', ''agw'', ''fgw''}"
  shows "k \<in> keys (config w') \<longleftrightarrow>
           fst (config_contains k [''components''] w') = Inr True \<or> k \<in> keys (config w)"
proof -
  have "tagged (keys (config w) \<inter> tags) w"
    by (simp add: tagged_def)
  from triple_Inr [OF triple_collect_deployment_config this assms(1)]
  have "follows (keys (config w) \<inter> tags) w'" .
  moreover from assms(2) have "k \<in> tags" by (simp add: tags_def)
  ultimately show ?thesis
    unfolding follows_def chosen_config_contains by blast
qed

lemmas questionnaire_defs = collect_deployment_config_def deployment_type_selection_def
  general_configuration_def network_configuration_def component_configuration_def
  save_configuration_def save_config_def write_file_def select_components_def
  collect_orchestrator_config_def collect_agw_config_def collect_fgw_config_def
  ask_def config_set_def config_get_def config_str_def config_contains_def config_append_def
  get_password_def getpass_def input_def full_prompt_def truthy_def text_of_def
  validate_email_def validate_ip_address_def


text \<open>
  C4, as the code has it. When the questionnaire completes, the configuration holds the
  sub-record of a component (orchestrator, access gateway, federated gateway) exactly when
  the component's tag is in the components list or the sub-record was there before the
  questionnaire began; the questionnaire adds sub-records and removes none. A run without
  \<^verbatim>\<open>--config\<close> begins the questionnaire with the empty configuration, and there the
  sub-record is present exactly when the tag is in the list.
\<close>

theorem sub_records_follow_selection:
  assumes "collect_deployment_config e w = (Inr (), w')"
    and "k \<in> {''orchestrator'', ''agw'', ''fgw''}"
  shows "(k \<in> keys (config w') \<longleftrightarrow>
            fst (config_contains k [''components''] w') = Inr True \<or> k \<in> keys (config w)) \<and>
         (config w = VDict [] \<longrightarrow>
            (k \<in> keys (config w') \<longleftrightarrow> fst (config_contains k [''components''] w') = Inr True))"
  using sub_records [OF assms] by auto

lemma federated_only_run:
  "\<exists>pr fs. collect_deployment_config sample_env federated_only =
     (Inr (), \<lparr>config = VDict [
         (''components'', VList [VStr ''fgw'']),
         (''domain'', VStr ''example.org''),
         (''admin_email'', VStr ''ops@example.org''),
         (''network'', VDict [(''external_ip'', VStr ''10.0.0.1'')]),
         (''fgw'', VDict [
            (''federation_id'', VStr ''fgw01''),
            (''served_network_ids'', VList [VStr ''network1'', VStr ''network2'']),
            (''diameter_host'', VStr ''fgw.magma.local''),
            (''diameter_realm'', VStr ''magma.local''),
            (''diameter_port'', VStr ''3868'')])],
       stdin = [], printed = pr, logged = [], files = fs, dirs = {}, history = []\<rparr>)"
  by (simp add: questionnaire_defs run_defs get_user_input.simps while_invalid.simps
      federated_only_def world0_def sample_env_def text_eval del: py_repr.simps)

theorem sub_records_follow_selection_witness:
  "fst (collect_deployment_config sample_env federated_only) = Inr () \<and>
   ''fgw'' \<in> keys (config (snd (collect_deployment_config sample_env federated_only))) \<and>
   fst (config_contains ''fgw'' [''components'']
          (snd (collect_deployment_config sample_env federated_only))) = Inr True"
proof -
  from federated_only_run obtain w' where
    run: "collect_deployment_config sample_env federated_only = (Inr (), w')"
    and sel: "fst (config_contains ''fgw'' [''components''] w') = Inr True"
    by (auto simp: config_contains_def config_get_def andthen_def lift_def)
  from sub_records_follow_selection [OF run, of "''fgw''"] sel
  have "''fgw'' \<in> keys (config w')" by simp
  with run sel show ?thesis by simp
qed

lemma gateway_over_stored_run:
  "\<exists>pr fs. andthen (load_step stored_env stored) (\<lambda>_. collect_deployment_config stored_env)
          gateway_over_stored =
     (Inr (), \<lparr>config = VDict [
         (''orchestrator'', VDict [(''namespace'', VStr ''magma'')]),
         (''components'', VList [VStr ''agw'']),
         (''domain'', VStr ''example.org''),
         (''admin_email'', VStr ''ops@example.org''),
         (''network'', VDict [(''external_ip'', VStr ''10.0.0.1'')]),
         (''agw'', VDict [
            (''interface'', VStr ''eth0''),
            (''ip_address'', VStr ''10.0.0.1''),
            (''mcc'', VStr ''001''),
            (''mnc'', VStr ''01''),
            (''tac'', VStr ''1''),
            (''s1ap_ip'', VStr ''10.0.0.1''),
            (''s1ap_port'', VStr ''36412'')])],
       stdin = [], printed = pr, logged = [], files = fs, dirs = {}, history = []\<rparr>)"
  by (simp add: questionnaire_defs run_defs get_user_input.simps while_invalid.simps
      load_step_def load_config_def stored_env_def stored_def gateway_over_stored_def
      world0_def sample_env_def text_eval del: py_repr.simps)

text \<open>
  C4 as stated fails after \<^verbatim>\<open>--config\<close>. The loaded file holds an orchestrator
  sub-record, the operator chooses the access gateway alone: the questionnaire completes,
  the orchestrator sub-record is still in the configuration, and the tag is not in the list.
\<close>

theorem stored_sub_record_counterexample:
  "fst (andthen (load_step stored_env stored) (\<lambda>_. collect_deployment_config stored_env)
          gateway_over_stored) = Inr () \<and>
   ''orchestrator'' \<in> keys (config (snd
       (andthen (load_step stored_env stored) (\<lambda>_. collect_deployment_config stored_env)
          gateway_over_stored))) \<and>
   fst (config_contains ''orchestrator'' [''components''] (snd
       (andthen (load_step stored_env stored) (\<lambda>_. collect_deployment_config stored_env)
          gateway_over_stored))) = Inr False"
  using gateway_over_stored_run
  by (auto simp: config_contains_def config_get_def andthen_def [of "config_get p" for p] lift_def)

section \<open>The menu answer that is no choice\<close>

subsection \<open>Prompts that ask again\<close>




subsection \<open>Answers that go through\<close>





subsection \<open>What the run makes of the failure\<close>






section \<open>Script generation\<close>

lemma render_piece_cases:
  assumes "records cfg" "shallow pc"
  shows "if \<forall>p \<in> set (needs pc). present cfg p
         then \<exists>s. render_piece cfg pc = Inr s
         else \<exists>k. render_piece cfg pc = Inl (KeyError k)"
proof (cases pc)
  case (Text s)
  then show ?thesis by simp
next
  case (Field p)
  with assms(2) consider k where "p = [k]" | k1 k2 where "p = [k1, k2]" "k1 \<in> tags"
    by (cases p; cases "tl p"; cases "tl (tl p)") auto
  then show ?thesis
  proof cases
    case 1
    from assms(1) have "is_dict cfg" by (simp add: records_def)
    with getitem_raises [of cfg k] 1 Field show ?thesis
      by (cases "getitem cfg k") (auto simp: present_def)
  next
    case 2
    from assms(1) have d: "is_dict cfg" by (simp add: records_def)
    show ?thesis
    proof (cases "getitem cfg k1")
      case (Inl ex)
      with getitem_raises [OF d, of k1 ex] 2 Field show ?thesis
        by (auto simp: present_def)
    next
      case (Inr sub)
      with assms(1) 2 have "is_dict sub" by (auto simp: records_def split: sum.splits)
      with getitem_raises [of sub k2] Inr 2 Field show ?thesis
        by (cases "getitem sub k2") (auto simp: present_def)
    qed
  qed
next
  case (FieldOr p k d)
  with assms(2) obtain k1 where p: "p = [k1]" "k1 \<in> tags"
    by (cases p; cases "tl p") auto
  from assms(1) have d: "is_dict cfg" by (simp add: records_def)
  show ?thesis
  proof (cases "getitem cfg k1")
    case (Inl ex)
    with getitem_raises [OF d, of k1 ex] p FieldOr show ?thesis
      by (auto simp: present_def)
  next
    case (Inr sub)
    with assms(1) p have "is_dict sub" by (auto simp: records_def split: sum.splits)
    then obtain kvs where "sub = VDict kvs" by (cases sub) auto
    with Inr p FieldOr show ?thesis
      by (auto simp: present_def)
  qed
qed

lemma render_cases:
  assumes "records cfg" "\<forall>pc \<in> set ps. shallow pc"
  shows "if \<forall>p \<in> set (concat (map needs ps)). present cfg p
         then \<exists>s. render cfg ps = Inr s
         else \<exists>k. render cfg ps = Inl (KeyError k)"
  using assms(2)
proof (induction ps)
  case Nil
  show ?case by simp
next
  case (Cons pc ps)
  from Cons.prems have sh: "shallow pc" and rest: "\<forall>pc \<in> set ps. shallow pc" by simp_all
  note one = render_piece_cases [OF assms(1) sh]
  note ih = Cons.IH [OF rest]
  show ?case
  proof (cases "\<forall>p \<in> set (needs pc). present cfg p")
    case False
    with one obtain k where "render_piece cfg pc = Inl (KeyError k)" by auto
    with False show ?thesis by auto
  next
    case True
    with one obtain s where s: "render_piece cfg pc = Inr s" by auto
    show ?thesis
    proof (cases "\<forall>p \<in> set (concat (map needs ps)). present cfg p")
      case all: True
      with ih obtain t where "render cfg ps = Inr t" by (auto split: if_splits)
      with s True all show ?thesis by auto
    next
      case False
      with ih obtain k where "render cfg ps = Inl (KeyError k)" by (auto split: if_splits)
      with s False show ?thesis by auto
    qed
  qed
qed

lemma needs_of_lines:
  "set (concat (map needs (concat (map (\<lambda>l. l @ [Text newline]) template)))) = set (required template)"
  by (induction template) (auto simp: required_def)

lemma render_lines_cases:
  assumes "records cfg" "\<forall>pc \<in> set (concat template). shallow pc"
  shows "if \<forall>p \<in> set (required template). present cfg p
         then \<exists>s. render_lines cfg template = Inr s
         else \<exists>k. render_lines cfg template = Inl (KeyError k)"
proof -
  from assms(2) have "\<forall>pc \<in> set (concat (map (\<lambda>l. l @ [Text newline]) template)). shallow pc"
    by auto
  from render_cases [OF assms(1) this] show ?thesis
    unfolding render_lines_def needs_of_lines .
qed

lemma generate_script_cases:
  assumes "records (config w)" "\<forall>pc \<in> set (concat template). shallow pc"
  shows "if \<forall>p \<in> set (required template). present (config w) p
         then \<exists>content. render_lines (config w) template = Inr content \<and>
                generate_script template path w = (Inr (), w\<lparr>files := (files w)(path \<mapsto> content)\<rparr>)
         else \<exists>k. generate_script template path w = (Inl (KeyError k), w)"
  using render_lines_cases [OF assms]
  by (auto simp: generate_script_def write_file_def split: if_splits)

lemma shallow_templates:
  "\<forall>pc \<in> set (concat orchestrator_template). shallow pc"
  "\<forall>pc \<in> set (concat agw_template). shallow pc"
  "\<forall>pc \<in> set (concat fgw_template). shallow pc"
  "\<forall>pc \<in> set (concat nms_template). shallow pc"
  by (simp_all add: orchestrator_template_def agw_template_def fgw_template_def nms_template_def
      tags_def)

subsection \<open>Statements that write no file\<close>

lemma files_keptD: "files_kept m \<Longrightarrow> m w = (r, w') \<Longrightarrow> files w' = files w"
  unfolding files_kept_def by blast

lemma fk_ret: "files_kept (ret x)"
  by (simp add: files_kept_def ret_def)

lemma fk_raise: "files_kept (raise ex)"
  by (simp add: files_kept_def raise_def)

lemma fk_lift: "files_kept (lift r)"
  by (auto simp: files_kept_def lift_def split: sum.splits)

lemma fk_print: "files_kept (print s)"
  by (auto simp: files_kept_def print_def)

lemma fk_logger_info: "files_kept (logger_info s)"
  by (auto simp: files_kept_def logger_info_def)

lemma fk_logger_error: "files_kept (logger_error s)"
  by (auto simp: files_kept_def logger_error_def)

lemma fk_fstring: "files_kept (fstring ps)"
  by (auto simp: files_kept_def fstring_def)

lemma fk_config_get: "files_kept (config_get p)"
  by (auto simp: files_kept_def config_get_def)

lemma fk_andthen:
  assumes "files_kept m" "\<And>x. files_kept (f x)"
  shows "files_kept (andthen m f)"
  unfolding files_kept_def
proof (intro allI impI)
  fix w r w' assume run: "andthen m f w = (r, w')"
  show "files w' = files w"
  proof (cases "m w")
    case (Pair r1 w1)
    with files_keptD [OF assms(1), of w r1 w1] have w1: "files w1 = files w" by simp
    show ?thesis
    proof (cases r1)
      case (Inl ex)
      with Pair run w1 show ?thesis by (simp add: andthen_def)
    next
      case (Inr x)
      with Pair run have "f x w1 = (r, w')" by (simp add: andthen_def)
      with files_keptD [OF assms(2), of x w1 r w'] w1 show ?thesis by simp
    qed
  qed
qed

lemma fk_steps_Nil: "files_kept (steps [])"
  by (simp add: fk_ret)

lemma fk_steps_Cons: "files_kept m \<Longrightarrow> files_kept (steps ms) \<Longrightarrow> files_kept (steps (m # ms))"
  by (simp add: fk_andthen)

lemma fk_if: "files_kept m \<Longrightarrow> files_kept n \<Longrightarrow> files_kept (if b then m else n)"
  by simp

lemma fk_try_except:
  assumes "files_kept m" "\<And>ex. files_kept (h ex)"
  shows "files_kept (try_except m c h)"
  unfolding files_kept_def
proof (intro allI impI)
  fix w r w' assume run: "try_except m c h w = (r, w')"
  show "files w' = files w"
  proof (cases "m w")
    case (Pair r1 w1)
    with files_keptD [OF assms(1), of w r1 w1] have w1: "files w1 = files w" by simp
    show ?thesis
    proof (cases r1)
      case (Inr x)
      with Pair run w1 show ?thesis by (simp add: try_except_def)
    next
      case (Inl ex)
      show ?thesis
      proof (cases "c ex")
        case True
        with Inl Pair run have "h ex w1 = (r, w')" by (simp add: try_except_def)
        with files_keptD [OF assms(2), of ex w1 r w'] w1 show ?thesis by simp
      next
        case False
        with Inl Pair run w1 show ?thesis by (simp add: try_except_def)
      qed
    qed
  qed
qed

lemma fk_config_contains: "files_kept (config_contains k p)"
  unfolding config_contains_def by (intro fk_andthen fk_config_get fk_lift)

lemma fk_subprocess_run: "files_kept (subprocess_run e command check)"
  by (auto simp: files_kept_def subprocess_run_def Let_def split: outcome.splits if_splits)

lemma fk_run_command: "files_kept (run_command e command check)"
  unfolding run_command_def
  by (intro fk_andthen fk_try_except fk_if fk_logger_info fk_logger_error fk_subprocess_run
      fk_ret fk_raise)

lemmas fk_intros = fk_andthen fk_steps_Cons fk_steps_Nil fk_if fk_try_except fk_print fk_ret
  fk_raise fk_lift fk_fstring fk_config_get fk_config_contains fk_run_command

lemma fk_display_deployment_summary: "files_kept (display_deployment_summary e)"
  unfolding display_deployment_summary_def by (intro fk_intros)

subsection \<open>One script for each component deployed\<close>

lemma generate_script_files:
  assumes "generate_script template path w = (Inr (), w')"
  shows "\<exists>content. files w' = (files w)(path \<mapsto> content)"
  using assms by (auto simp: generate_script_def write_file_def split: sum.splits)

lemma steps_files:
  assumes "steps (m # g # ms) w = (Inr (), w')" "files_kept m" "files_kept (steps ms)"
    and "\<And>w1 w2. g w1 = (Inr (), w2) \<Longrightarrow> \<exists>content. files w2 = (files w1)(path \<mapsto> content)"
  shows "\<exists>content. files w' = (files w)(path \<mapsto> content)"
proof -
  from assms(1) obtain w1 w2 where m: "m w = (Inr (), w1)" and g: "g w1 = (Inr (), w2)"
    and rest: "steps ms w2 = (Inr (), w')"
    by (auto simp: andthen_Inr_iff)
  from files_keptD [OF assms(2) m] files_keptD [OF assms(3) rest] assms(4) [OF g]
  show ?thesis by auto
qed

lemma deploy_agw_files:
  assumes "deploy_agw e w = (Inr (), w')"
  shows "\<exists>content. files w' = (files w)(script_of e ''agw'' \<mapsto> content)"
  using assms unfolding deploy_agw_def Let_def generate_agw_script_def
  by (rule steps_files) (auto intro!: fk_intros simp: script_of_def dest: generate_script_files)

lemma deploy_fgw_files:
  assumes "deploy_fgw e w = (Inr (), w')"
  shows "\<exists>content. files w' = (files w)(script_of e ''fgw'' \<mapsto> content)"
  using assms unfolding deploy_fgw_def Let_def generate_fgw_script_def
  by (rule steps_files) (auto intro!: fk_intros simp: script_of_def dest: generate_script_files)

lemma deploy_nms_files:
  assumes "deploy_nms e w = (Inr (), w')"
  shows "\<exists>content. files w' = (files w)(script_of e ''nms'' \<mapsto> content)"
  using assms unfolding deploy_nms_def Let_def generate_nms_script_def
  by (rule steps_files) (auto intro!: fk_intros simp: script_of_def dest: generate_script_files)

lemma deploy_orchestrator_files:
  assumes "deploy_orchestrator e w = (Inr (), w')"
  shows "\<exists>content. files w' = (files w)(script_of e ''orchestrator'' \<mapsto> content)"
proof -
  let ?ns = "try_except
             (andthen (fstring [Text ''kubectl create namespace '', Field [''orchestrator'', ''namespace'']])
                (\<lambda>command. andthen (run_command e command True) (\<lambda>_. ret ())))
             is_CalledProcessError
             (\<lambda>ex. print ''Namespace already exists or error creating it'')"
  from assms obtain w0 where p: "print ''Setting up Orchestrator...'' w = (Inr (), w0)"
    and rest: "steps [?ns, generate_orchestrator_script (script_of e ''orchestrator''),
         andthen (run_command e (''chmod +x '' @ script_of e ''orchestrator'') True) (\<lambda>_. ret ()),
         andthen (run_command e (script_of e ''orchestrator'') True) (\<lambda>_. ret ())] w0 = (Inr (), w')"
    by (auto simp: deploy_orchestrator_def Let_def andthen_Inr_iff script_of_def)
  have "\<exists>content. files w' = (files w0)(script_of e ''orchestrator'' \<mapsto> content)"
    using rest unfolding generate_orchestrator_script_def
    by (rule steps_files) (auto intro!: fk_intros dest: generate_script_files)
  with files_keptD [OF fk_print p] show ?thesis by simp
qed

lemma steps_three:
  assumes "steps [a, b, c] w = (Inr (), w')"
  shows "\<exists>w1 w2. a w = (Inr (), w1) \<and> b w1 = (Inr (), w2) \<and> c w2 = (Inr (), w')"
  using assms by (auto simp: andthen_Inr_iff ret_def)

lemma deploy_component_files:
  assumes "deploy_component e c w = (Inr (), w')"
  shows "\<exists>name. c = VStr name \<and>
           (if name \<in> deployable then \<exists>content. files w' = (files w)(script_of e name \<mapsto> content)
            else files w' = files w)"
proof -
  let ?dispatch = "if c = VStr ''orchestrator'' then deploy_orchestrator e
        else if c = VStr ''agw'' then deploy_agw e
        else if c = VStr ''fgw'' then deploy_fgw e
        else if c = VStr ''nms'' then deploy_nms e
        else ret ()"
  let ?before = "andthen (lift (upper_of c)) (\<lambda>name.
         print (newline @ mark_package @ '' Deploying '' @ name @ ''...''))"
  let ?after = "andthen (lift (upper_of c)) (\<lambda>name.
         print (mark_ok @ '' '' @ name @ '' deployment completed''))"
  from assms have "steps [?before, ?dispatch, ?after] w = (Inr (), w')"
    by (simp only: deploy_component_def)
  from steps_three [OF this] obtain w1 w2 where b: "?before w = (Inr (), w1)"
    and d: "?dispatch w1 = (Inr (), w2)" and a: "?after w2 = (Inr (), w')"
    by blast
  from b obtain name where c: "c = VStr name"
    by (cases c) (auto simp: andthen_def lift_def)
  have "files_kept ?before" "files_kept ?after"
    by (intro fk_intros)+
  with files_keptD [of ?before w "Inr ()" w1] files_keptD [of ?after w2 "Inr ()" w'] a b
  have f1: "files w1 = files w" and f2: "files w' = files w2"
    by simp_all
  consider "name = ''orchestrator''" | "name = ''agw''" | "name = ''fgw''" | "name = ''nms''"
    | "name \<notin> deployable"
    by (auto simp: deployable_def)
  then have "if name \<in> deployable then \<exists>content. files w2 = (files w1)(script_of e name \<mapsto> content)
        else files w2 = files w1"
  proof cases
    case 1
    with d c deploy_orchestrator_files [of e w1 w2] show ?thesis by (simp add: deployable_def)
  next
    case 2
    with d c deploy_agw_files [of e w1 w2] show ?thesis by (simp add: deployable_def)
  next
    case 3
    with d c deploy_fgw_files [of e w1 w2] show ?thesis by (simp add: deployable_def)
  next
    case 4
    with d c deploy_nms_files [of e w1 w2] show ?thesis by (simp add: deployable_def)
  next
    case 5
    with d c show ?thesis by (auto simp: deployable_def ret_def)
  qed
  with c f1 f2 show ?thesis by (auto split: if_splits)
qed

lemma deploy_each_files:
  assumes "deploy_each e cs w = (Inr (), w')"
  shows "dom (files w') = dom (files w) \<union> script_of e ` {n \<in> deployable. VStr n \<in> set cs}"
  using assms
proof (induction cs arbitrary: w)
  case Nil
  then show ?case by (simp add: ret_def)
next
  case (Cons c cs)
  from Cons.prems obtain w1 where one: "deploy_component e c w = (Inr (), w1)"
    and rest: "deploy_each e cs w1 = (Inr (), w')"
    by (auto simp: andthen_Inr_iff)
  from deploy_component_files [OF one] obtain name where c: "c = VStr name"
    and f: "if name \<in> deployable then \<exists>content. files w1 = (files w)(script_of e name \<mapsto> content)
            else files w1 = files w"
    by blast
  have "dom (files w1) = dom (files w) \<union> script_of e ` {n \<in> deployable. n = name}"
  proof (cases "name \<in> deployable")
    case True
    with f obtain content where "files w1 = (files w)(script_of e name \<mapsto> content)" by auto
    with True show ?thesis by auto
  next
    case False
    with f show ?thesis by auto
  qed
  with Cons.IH [OF rest] c show ?case by auto
qed

lemma deploy_components_files:
  assumes "deploy_components e w = (Inr (), w')" "getitem (config w) ''components'' = Inr (VList cs)"
  shows "dom (files w') = dom (files w) \<union> script_of e ` {n \<in> deployable. VStr n \<in> set cs}"
proof -
  let ?loop = "andthen (config_get [''components'']) (\<lambda>v.
       andthen (lift (iterate v)) (\<lambda>components. deploy_each e components))"
  from assms(1) obtain w1 w2 where
    p: "steps [print (newline @ mark_rocket @ '' STARTING DEPLOYMENT''),
               print (replicate 40 (CHR ''=''))] w = (Inr (), w1)"
    and l: "?loop w1 = (Inr (), w2)"
    and s: "steps [print (newline @ mark_party @ '' All selected components deployed successfully!''),
                   display_deployment_summary e] w2 = (Inr (), w')"
    by (auto simp: deploy_components_def andthen_Inr_iff ret_def)
  have f1: "files w1 = files w" and c1: "config w1 = config w"
    using p by (auto simp: andthen_def print_def ret_def)
  have "files_kept (steps [print (newline @ mark_party @ '' All selected components deployed successfully!''),
                   display_deployment_summary e])"
    by (intro fk_intros fk_display_deployment_summary)
  from files_keptD [OF this s] have f3: "files w' = files w2" .
  from l c1 assms(2) have "deploy_each e cs w1 = (Inr (), w2)"
    by (simp add: andthen_def config_get_def lift_def)
  from deploy_each_files [OF this] f1 f3 show ?thesis by simp
qed

lemma script_of_inj: "inj_on (script_of e) deployable"
  by (simp add: inj_on_def script_of_def)

lemma generate_script_history: "history (snd (generate_script template path w)) = history w"
  by (simp add: generate_script_def write_file_def split: sum.splits)

text \<open>
  C3. The four generators are \<^const>\<open>generate_script\<close> at their templates. A field is
  required by a template when the template reads it by subscript; the two TLS paths of the
  orchestrator are read with a default and are not required, only their sub-record is. Let
  the configuration be a dictionary whose component sub-records are dictionaries. Then a
  generator writes exactly one file, at the path it is given, with the rendered template as
  its content, and changes nothing else, when every required field is present; when one is
  absent it raises the missing-key error and leaves the world as it was. In both cases it
  runs no command. A deployment that returns has written exactly the scripts of the
  components in the list, one for each, at paths that differ from component to component.
\<close>

theorem script_generation:
  assumes "records (config w)"
    and "(template, generate) \<in>
           {(orchestrator_template, generate_orchestrator_script),
            (agw_template, generate_agw_script),
            (fgw_template, generate_fgw_script),
            (nms_template, generate_nms_script)}"
  shows "(if \<forall>p \<in> set (required template). present (config w) p
          then \<exists>content. render_lines (config w) template = Inr content \<and>
                 generate path w = (Inr (), w\<lparr>files := (files w)(path \<mapsto> content)\<rparr>)
          else \<exists>k. generate path w = (Inl (KeyError k), w)) \<and>
         history (snd (generate path w)) = history w \<and>
         (\<forall>cs w'. getitem (config w) ''components'' = Inr (VList cs) \<and>
                  deploy_components e w = (Inr (), w') \<longrightarrow>
            dom (files w') = dom (files w) \<union> script_of e ` {n \<in> deployable. VStr n \<in> set cs}) \<and>
         inj_on (script_of e) deployable"
proof -
  from assms(2) have g: "generate = generate_script template"
    and sh: "\<forall>pc \<in> set (concat template). shallow pc"
    using shallow_templates
    by (auto simp: generate_orchestrator_script_def generate_agw_script_def
        generate_fgw_script_def generate_nms_script_def fun_eq_iff)
  from generate_script_cases [OF assms(1) sh, of path]
  have "if \<forall>p \<in> set (required template). present (config w) p
          then \<exists>content. render_lines (config w) template = Inr content \<and>
                 generate path w = (Inr (), w\<lparr>files := (files w)(path \<mapsto> content)\<rparr>)
          else \<exists>k. generate path w = (Inl (KeyError k), w)"
    unfolding g .
  moreover have "history (snd (generate path w)) = history w"
    unfolding g by (rule generate_script_history)
  moreover have "\<forall>cs w'. getitem (config w) ''components'' = Inr (VList cs) \<and>
                  deploy_components e w = (Inr (), w') \<longrightarrow>
            dom (files w') = dom (files w) \<union> script_of e ` {n \<in> deployable. VStr n \<in> set cs}"
    using deploy_components_files [of e w] by blast
  ultimately show ?thesis
    using script_of_inj [of e] by blast
qed

lemma federated_deployment:
  "\<exists>pr lg fs. deploy_components sample_env federated =
     (Inr (), \<lparr>config = config federated, stdin = [], printed = pr, logged = lg, files = fs,
                dirs = {},
                history = [''chmod +x /opt/magma-deploy/scripts/deploy_fgw.sh'',
                           ''/opt/magma-deploy/scripts/deploy_fgw.sh'']\<rparr>)"
  by (simp add: deploy_components_def deploy_component_def deploy_fgw_def
      generate_fgw_script_def generate_script_def render_lines_def fgw_template_def
      display_deployment_summary_def fstring_def write_file_def
      run_command_def subprocess_run_def logger_info_def logger_error_def
      config_get_def config_contains_def scripts_dir_def
      run_defs federated_def world0_def sample_env_def upper_def upper_char_def
      char_eval Let_def)

theorem script_generation_witness:
  "(\<exists>content. generate_fgw_script ''deploy_fgw.sh'' federated =
      (Inr (), federated\<lparr>files := [''deploy_fgw.sh'' \<mapsto> content]\<rparr>)) \<and>
   (\<exists>k. generate_nms_script ''deploy_nms.sh'' federated = (Inl (KeyError k), federated)) \<and>
   fst (deploy_components sample_env federated) = Inr () \<and>
   dom (files (snd (deploy_components sample_env federated))) =
     {''/opt/magma-deploy/scripts/deploy_fgw.sh''}"
proof -
  have known: "records (config federated)"
    by (simp add: records_def tags_def federated_def world0_def)
  have no_files: "files federated = Map.empty"
    by (simp add: federated_def world0_def)
  have listed: "getitem (config federated) ''components'' = Inr (VList [VStr ''fgw''])"
    by (simp add: federated_def world0_def)
  have filled: "\<forall>p \<in> set (required fgw_template). present (config federated) p"
    by (simp add: required_def fgw_template_def present_def federated_def world0_def)
  have unfilled: "\<not> (\<forall>p \<in> set (required nms_template). present (config federated) p)"
    by (simp add: required_def nms_template_def present_def federated_def world0_def)
  note gateway = script_generation [of federated fgw_template generate_fgw_script
      "''deploy_fgw.sh''" sample_env, OF known]
  note console = script_generation [of federated nms_template generate_nms_script
      "''deploy_nms.sh''" sample_env, OF known]
  from gateway [THEN conjunct1] filled no_files
  have one: "\<exists>content. generate_fgw_script ''deploy_fgw.sh'' federated =
      (Inr (), federated\<lparr>files := [''deploy_fgw.sh'' \<mapsto> content]\<rparr>)"
    by auto
  from console [THEN conjunct1] unfilled
  have none: "\<exists>k. generate_nms_script ''deploy_nms.sh'' federated = (Inl (KeyError k), federated)"
    by auto
  from federated_deployment obtain w' where
    run: "deploy_components sample_env federated = (Inr (), w')"
    by blast
  have only: "{n \<in> deployable. VStr n \<in> set [VStr ''fgw'']} = {''fgw''}"
    by (auto simp: deployable_def)
  from gateway [THEN conjunct2, THEN conjunct2, THEN conjunct1, rule_format,
      of "[VStr ''fgw'']" w'] listed run
  have "dom (files w') = dom (files federated) \<union>
          script_of sample_env ` {n \<in> deployable. VStr n \<in> set [VStr ''fgw'']}"
    by simp
  then have "dom (files w') = {''/opt/magma-deploy/scripts/deploy_fgw.sh''}"
    unfolding only no_files
    by (simp add: script_of_def scripts_dir_def sample_env_def)
  with one none run show ?thesis by simp
qed

end
